theory Spec2Isabelle
  imports Main "HOL-Library.Sublist" "HOL-Library.Char_ord" "HOL-Library.List_Lexorder"
begin

section \<open>Python string operations used by the pipeline\<close>

text \<open>
  Texts are values of type \<open>string\<close>: lists of characters with code points below 256.
  The operations follow the Python built-ins the source calls, under the source's names.
\<close>

text \<open>\<^verbatim>\<open>s.startswith(p)\<close>\<close>

definition startswith :: "string \<Rightarrow> string \<Rightarrow> bool" where
  "startswith s p = prefix p s"

text \<open>\<^verbatim>\<open>s.endswith(p)\<close>\<close>

definition endswith :: "string \<Rightarrow> string \<Rightarrow> bool" where
  "endswith s p = suffix p s"

text \<open>\<^verbatim>\<open>sub in s\<close> for strings: \<open>sub\<close> occurs in \<open>s\<close> as a contiguous block.\<close>

fun str_in :: "string \<Rightarrow> string \<Rightarrow> bool" where
  "str_in sub [] = (sub = [])"
| "str_in sub (c # cs) = (prefix sub (c # cs) \<or> str_in sub cs)"

text \<open>
  \<^verbatim>\<open>s.split(sep)\<close> with a separator: the pieces between the occurrences of \<open>sep\<close>,
  found from the left without overlap. Python raises \<open>ValueError\<close> for an empty separator;
  every call of the source passes a non-empty literal, and the model makes no cut for the
  empty one.
\<close>

function split :: "string \<Rightarrow> string \<Rightarrow> string list" where
  "split sep [] = [[]]"
| "split sep (c # cs) =
     (if sep \<noteq> [] \<and> prefix sep (c # cs)
      then [] # split sep (drop (length sep) (c # cs))
      else (case split sep cs of
              [] \<Rightarrow> [[c]]
            | p # ps \<Rightarrow> (c # p) # ps))"
  by pat_completeness auto
termination
  by (relation "measure (\<lambda>(sep, s). length s)") (auto simp: neq_Nil_conv)

text \<open>\<^verbatim>\<open>sep.join(xs)\<close>\<close>

fun join :: "string \<Rightarrow> string list \<Rightarrow> string" where
  "join sep [] = []"
| "join sep [x] = x"
| "join sep (x # y # ys) = x @ sep @ join sep (y # ys)"

text \<open>\<^verbatim>\<open>s.replace(old, new)\<close> for a non-empty \<open>old\<close>.\<close>

definition replace :: "string \<Rightarrow> string \<Rightarrow> string \<Rightarrow> string" where
  "replace s old new = join new (split old s)"

text \<open>
  \<^verbatim>\<open>c.isspace()\<close>, which is also the class \<^verbatim>\<open>\s\<close> of \<open>re\<close> on \<open>str\<close> patterns:
  tab, line feed, vertical tab, form feed, carriage return, the separators 28 to 31, the
  space, and in the range up to 255 the next-line and no-break-space characters.
\<close>

definition isspace :: "char \<Rightarrow> bool" where
  "isspace c = (of_char c \<in> {9, 10, 11, 12, 13, 28, 29, 30, 31, 32, 133, 160 :: nat})"

text \<open>The class \<^verbatim>\<open>\d\<close> of \<open>re\<close>: the decimal digits.\<close>

definition isdecimal :: "char \<Rightarrow> bool" where
  "isdecimal c = (48 \<le> (of_char c :: nat) \<and> (of_char c :: nat) \<le> 57)"

text \<open>\<^verbatim>\<open>s.lstrip()\<close>, \<^verbatim>\<open>s.rstrip()\<close>, \<^verbatim>\<open>s.strip()\<close>\<close>

definition lstrip :: "string \<Rightarrow> string" where
  "lstrip s = dropWhile isspace s"

definition rstrip :: "string \<Rightarrow> string" where
  "rstrip s = rev (dropWhile isspace (rev s))"

definition strip :: "string \<Rightarrow> string" where
  "strip s = rstrip (lstrip s)"

text \<open>
  \<^verbatim>\<open>s.lower()\<close>: the capital letters A to Z, and in the range up to 255 the capital
  letters 192 to 222 without the multiplication sign 215, move up by 32.
\<close>

definition lower_char :: "char \<Rightarrow> char" where
  "lower_char c =
     (let n = (of_char c :: nat)
      in if (65 \<le> n \<and> n \<le> 90) \<or> (192 \<le> n \<and> n \<le> 222 \<and> n \<noteq> 215)
         then char_of (n + 32) else c)"

definition lower :: "string \<Rightarrow> string" where
  "lower s = map lower_char s"

section \<open>Data model\<close>

text \<open>A citation is the dictionary \<^verbatim>\<open>{"title": ..., "url": ...}\<close>; every producer sets both keys.\<close>

record citation =
  title :: string
  url :: string

text \<open>
  One entry of \<^verbatim>\<open>research_outputs\<close>:
  \<^verbatim>\<open>{"task": task, "content": result_text, "citations": citations}\<close>.
\<close>

record research_output =
  ro_task :: string
  ro_content :: string
  ro_citations :: "citation list"

text \<open>
  One entry of \<^verbatim>\<open>critiqued_documents\<close>:
  \<^verbatim>\<open>{"task": task_desc, "original": doc_text, "critique": critique, "citations": doc_citations}\<close>.
\<close>

record critiqued_document =
  cd_task :: string
  cd_original :: string
  cd_critique :: string
  cd_citations :: "citation list"

text \<open>
  A call of the text-generation kernel either returns a text (\<open>Inr\<close>) or raises an
  exception, of which the source only uses the message (\<open>Inl\<close>).
\<close>

type_synonym invoke_result = "string + string"

text \<open>The capability calls a run makes, in order, with their arguments.\<close>

datatype call =
    ClarifierQuestionsCall string
  | PlanCall string
  | ClarifyQueryCall string string
  | ResearchCall string "string option" string
  | CritiqueCall string string
  | SynthesiseCall string string
  | FormatReportCall string string

section \<open>Critique agent and critique phase\<close>

text \<open>
  \<^verbatim>\<open>CritiqueAgent.critique_document\<close>: an empty or \<^verbatim>\<open>Error:\<close>-prefixed document is
  not sent to the kernel; an exception of the kernel becomes an \<^verbatim>\<open>Error:\<close> text.
\<close>

definition critique_document ::
  "(string \<Rightarrow> string \<Rightarrow> invoke_result) \<Rightarrow> string \<Rightarrow> string \<Rightarrow> string \<times> call list" where
  "critique_document invoke research_task_description research_document_text =
     (if research_document_text = [] \<or> startswith research_document_text ''Error:''
      then (''Critique Skipped for Task: '' @ research_task_description
              @ ''\<newline>Reason: Document content is empty or an error message from a previous step.''
              @ ''\<newline>Document Content Provided: '' @ take 100 research_document_text @ ''...'',
            [])
      else (case invoke research_task_description research_document_text of
              Inr result \<Rightarrow> strip result
            | Inl e \<Rightarrow> ''Error: Could not critique document for task: ''
                        @ research_task_description @ ''. Details: '' @ e,
            [CritiqueCall research_task_description research_document_text]))"

text \<open>
  \<^verbatim>\<open>ResearchOrchestrator._handle_critique_phase\<close>: the loop over \<^verbatim>\<open>research_outputs\<close>
  appends one critiqued document per research output.
\<close>

fun handle_critique_loop ::
  "(string \<Rightarrow> string \<Rightarrow> invoke_result) \<Rightarrow> research_output list
     \<Rightarrow> critiqued_document list \<Rightarrow> call list \<Rightarrow> critiqued_document list \<times> call list" where
  "handle_critique_loop invoke [] critiqued_documents calls = (critiqued_documents, calls)"
| "handle_critique_loop invoke (res_output # rest) critiqued_documents calls =
     (let task_desc = ro_task res_output;
          doc_text = ro_content res_output;
          doc_citations = ro_citations res_output;
          (critique, cs) = critique_document invoke task_desc doc_text
      in handle_critique_loop invoke rest
           (critiqued_documents @
              [\<lparr>cd_task = task_desc, cd_original = doc_text,
                cd_critique = critique, cd_citations = doc_citations\<rparr>])
           (calls @ cs))"

definition handle_critique_phase ::
  "(string \<Rightarrow> string \<Rightarrow> invoke_result) \<Rightarrow> research_output list
     \<Rightarrow> critiqued_document list \<times> call list" where
  "handle_critique_phase invoke research_outputs =
     handle_critique_loop invoke research_outputs [] []"

section \<open>Synthesiser agent\<close>

text \<open>\<^verbatim>\<open>str(n)\<close> for a natural number: its decimal digits.\<close>

fun str_nat :: "nat \<Rightarrow> string" where
  "str_nat n = (if n < 10 then [char_of (48 + n)]
                else str_nat (n div 10) @ [char_of (48 + n mod 10)])"

declare str_nat.simps [simp del]

text \<open>
  The documents handed to the synthesiser are dictionaries from keys to texts;
  \<^verbatim>\<open>item.get(key, default)\<close> reads one.
\<close>

type_synonym dict = "(string \<times> string) list"

definition dict_get :: "dict \<Rightarrow> string \<Rightarrow> string \<Rightarrow> string" where
  "dict_get item key dflt = (case map_of item key of None \<Rightarrow> dflt | Some v \<Rightarrow> v)"

text \<open>
  \<^verbatim>\<open>SynthesiserAgent._format_critiques_for_prompt\<close>: the loop over
  \<^verbatim>\<open>enumerate(critiqued_documents)\<close>, with the index \<open>i\<close> and the text built so far.
\<close>

fun format_critiques_loop :: "nat \<Rightarrow> dict list \<Rightarrow> string \<Rightarrow> string" where
  "format_critiques_loop i [] formatted_string = formatted_string"
| "format_critiques_loop i (item # rest) formatted_string =
     (let critique_content = dict_get item ''critique_text'' ''N/A''
      in format_critiques_loop (i + 1) rest
           (formatted_string
              @ ''Critiqued Document '' @ str_nat (i + 1) @ '':\<newline>''
              @ ''Original Task: '' @ dict_get item ''original_task'' ''N/A'' @ ''\<newline>''
              @ (if startswith critique_content ''Critique Skipped for Task''
                 then ''Critique Status: Skipped or Errored\<newline>Details: ''
                        @ critique_content @ ''\<newline>''
                 else ''Critique:\<newline>'' @ critique_content @ ''\<newline>'')
              @ ''---\<newline>''))"

definition format_critiques_for_prompt :: "dict list \<Rightarrow> string" where
  "format_critiques_for_prompt critiqued_documents =
     (if critiqued_documents = [] then ''No critiqued documents were provided.\<newline>''
      else format_critiques_loop 0 critiqued_documents [])"

text \<open>
  \<^verbatim>\<open>SynthesiserAgent.synthesise_research\<close>: the result text and the kernel calls made.
\<close>

definition synthesise_research ::
  "(string \<Rightarrow> string \<Rightarrow> invoke_result) \<Rightarrow> string \<Rightarrow> dict list \<Rightarrow> string \<times> call list" where
  "synthesise_research invoke overall_user_query critiqued_documents =
     (if critiqued_documents = []
      then (''Error: No critiqued documents provided for synthesis.'', [])
      else
        let formatted_critiques_str = format_critiques_for_prompt critiqued_documents
        in if list_all (\<lambda>f_item. str_in ''Critique Status: Skipped or Errored'' f_item)
                (split ''---'' formatted_critiques_str)
              \<and> critiqued_documents \<noteq> []
           then (''Error: All document critiques were skipped or resulted in errors. Cannot synthesise from: ''
                   @ formatted_critiques_str, [])
           else ((case invoke overall_user_query formatted_critiques_str of
                    Inr result \<Rightarrow> strip result
                  | Inl e \<Rightarrow> ''Error: Could not synthesise research. Details: '' @ e),
                 [SynthesiseCall overall_user_query formatted_critiques_str]))"

section \<open>Citation clean-up and merge of the synthesis phase\<close>

text \<open>
  The tracking-parameter clean-up of \<^verbatim>\<open>_handle_synthesis_phase\<close>, the value of
  \<^verbatim>\<open>clean_url\<close> for a citation's \<^verbatim>\<open>url\<close>. The source indexes the pieces of a split at 0
  and 1 only where the separator occurs, so both indices are in range.
\<close>

definition clean_url :: "string \<Rightarrow> string" where
  "clean_url u =
     (if str_in ''?utm_source='' u then split ''?utm_source='' u ! 0
      else if str_in ''?'' u \<and> (str_in ''&utm_'' u \<or> str_in ''&amp;utm_'' u) then
        (let base_url = split ''?'' u ! 0;
             params = split ''&'' (split ''?'' u ! 1);
             non_tracking_params =
               filter (\<lambda>p. \<not> startswith p ''utm_'' \<and> \<not> startswith p ''amp;utm_'') params
         in if non_tracking_params \<noteq> []
            then base_url @ ''?'' @ join ''&'' non_tracking_params
            else base_url)
      else u)"

text \<open>
  The title stored for a citation: an empty or generic title is replaced by one made from
  the host and path of the cleaned URL, when that URL has a scheme separator.
\<close>

definition citation_title :: "string \<Rightarrow> string \<Rightarrow> string" where
  "citation_title t cu =
     (if t = [] \<or> lower t \<in> set [''source'', ''untitled source'', ''untitled''] then
        (if str_in ''://'' cu then
           (let domain = split ''/'' (split ''://'' cu ! 1) ! 0;
                path = split ''?'' (join ''/'' (drop 3 (split ''/'' cu))) ! 0
            in if path \<noteq> [] then ''Article from '' @ domain @ '': '' @ path
               else ''Source: '' @ domain)
         else t)
      else t)"

text \<open>
  The dictionary \<^verbatim>\<open>unique_citations\<close> keeps its keys in insertion order and the loop only
  inserts absent keys: an association list to which entries are appended.
\<close>

fun unique_citations_loop ::
  "citation list \<Rightarrow> (string \<times> citation) list \<Rightarrow> (string \<times> citation) list" where
  "unique_citations_loop [] unique_citations = unique_citations"
| "unique_citations_loop (c # rest) unique_citations =
     (let cu = clean_url (url c)
      in if cu \<noteq> [] \<and> cu \<notin> fst ` set unique_citations
         then unique_citations_loop rest
                (unique_citations @ [(cu, \<lparr>title = citation_title (title c) cu, url = cu\<rparr>)])
         else unique_citations_loop rest unique_citations)"

text \<open>\<^verbatim>\<open>sorted(unique_citations.values(), key=lambda x: x.get("title", "").lower())\<close>\<close>

definition sorted_citations :: "citation list \<Rightarrow> citation list" where
  "sorted_citations all_citations =
     sort_key (\<lambda>x. lower (title x)) (map snd (unique_citations_loop all_citations []))"

text \<open>The numbered lines \<^verbatim>\<open>f"{i+1}. [{title}]({url})\n"\<close> of the citations section.\<close>

fun citation_lines :: "nat \<Rightarrow> citation list \<Rightarrow> string" where
  "citation_lines i [] = []"
| "citation_lines i (c # rest) =
     str_nat (i + 1) @ ''. ['' @ title c @ ''](''  @ url c @ '')\<newline>''
       @ citation_lines (i + 1) rest"

section \<open>Synthesis phase\<close>

text \<open>
  \<^verbatim>\<open>ResearchOrchestrator._handle_synthesis_phase\<close>. Every critiqued document is a
  dictionary with the keys \<^verbatim>\<open>citations\<close>, \<^verbatim>\<open>critique\<close> and \<^verbatim>\<open>original\<close>, so the
  \<^verbatim>\<open>isinstance\<close> and key tests of the two loops hold for each of them.
\<close>

definition all_citations_of :: "critiqued_document list \<Rightarrow> citation list" where
  "all_citations_of critiqued_documents = concat (map cd_citations critiqued_documents)"

definition docs_for_synthesis_of :: "critiqued_document list \<Rightarrow> dict list" where
  "docs_for_synthesis_of critiqued_documents =
     map (\<lambda>doc. [(''content'', cd_critique doc),
                  (''original_task'', cd_task doc),
                  (''original_content'', cd_original doc)]) critiqued_documents"

definition citations_appendix :: "citation list \<Rightarrow> string" where
  "citations_appendix all_citations =
     ''\<newline>\<newline>## Sources and Citations\<newline>\<newline>''
       @ (let sorted = sorted_citations all_citations
          in if sorted \<noteq> [] then citation_lines 0 sorted
             else ''*No citations were found for this report.*\<newline>'')"

definition handle_synthesis_phase ::
  "(string \<Rightarrow> string \<Rightarrow> invoke_result) \<Rightarrow> string \<Rightarrow> critiqued_document list
     \<Rightarrow> string \<times> call list" where
  "handle_synthesis_phase invoke current_query critiqued_documents =
     (let all_citations = all_citations_of critiqued_documents;
          docs_for_synthesis = docs_for_synthesis_of critiqued_documents
      in if docs_for_synthesis = []
         then (''Error: No critiqued documents provided for synthesis.'', [])
         else
           (let (synthesized_report, calls) =
                  synthesise_research invoke current_query docs_for_synthesis
            in (if \<not> startswith synthesized_report ''Error:'' \<and> all_citations \<noteq> []
                then synthesized_report @ citations_appendix all_citations
                else synthesized_report,
                calls)))"

section \<open>Planner agent: tasks of a plan\<close>

text \<open>
  The regular expressions of \<^verbatim>\<open>extract_research_tasks_from_plan\<close> are matched with
  \<^verbatim>\<open>re.IGNORECASE\<close>. Each of them is a sequence of greedy classes and literals in which
  no class can give a character back to what follows it, so a match attempt at one
  position is a deterministic scan. \<open>re_search\<close> is \<^verbatim>\<open>re.search\<close>: the attempt at the
  leftmost position that succeeds.
\<close>

fun re_search :: "(string \<Rightarrow> 'a option) \<Rightarrow> string \<Rightarrow> 'a option" where
  "re_search attempt [] = attempt []"
| "re_search attempt (c # cs) =
     (case attempt (c # cs) of Some g \<Rightarrow> Some g | None \<Rightarrow> re_search attempt cs)"

text \<open>A literal of a pattern matched without regard to case; the result is the rest of the text.\<close>

definition match_literal :: "string \<Rightarrow> string \<Rightarrow> string option" where
  "match_literal lit s =
     (if lower (take (length lit) s) = lower lit then Some (drop (length lit) s) else None)"

definition isquote :: "char \<Rightarrow> bool" where
  "isquote c = (c = CHR 0x27 \<or> c = CHR 0x22)"

text \<open>
  \<^verbatim>\<open>['\"](?P<query>.*?)['\"]\<close> at the start of a text: a quote character, the shortest
  run without a line feed, and a quote character. The result is the group \<^verbatim>\<open>query\<close>.
\<close>

definition quoted_query :: "string \<Rightarrow> string option" where
  "quoted_query s =
     (case s of
        [] \<Rightarrow> None
      | q # r \<Rightarrow>
          (let g = takeWhile (\<lambda>c. \<not> isquote c) r
           in if isquote q \<and> length g < length r \<and> CHR 0x0A \<notin> set g then Some g else None))"

text \<open>\<^verbatim>\<open>Search for:\s*['\"](?P<query>.*?)['\"]\<close> at the start of a text.\<close>

definition search_for_at :: "string \<Rightarrow> string option" where
  "search_for_at s =
     (case match_literal ''Search for:'' s of
        None \<Rightarrow> None
      | Some r \<Rightarrow> quoted_query (dropWhile isspace r))"

text \<open>
  \<^verbatim>\<open>\s*\d*\.\s*\[ResearchAgent\]\s*\<close> at the start of a text; the result is the text
  after the match.
\<close>

definition numbered_tag_at :: "string \<Rightarrow> string option" where
  "numbered_tag_at s =
     (case dropWhile isdecimal (dropWhile isspace s) of
        [] \<Rightarrow> None
      | c # r \<Rightarrow>
          (if c = CHR ''.''
           then (case match_literal ''[ResearchAgent]'' (dropWhile isspace r) of
                   None \<Rightarrow> None
                 | Some r' \<Rightarrow> Some (dropWhile isspace r'))
           else None))"

text \<open>The group \<^verbatim>\<open>query\<close> of \<^verbatim>\<open>specific_search_pattern\<close> for an attempt at the start of a text.\<close>

definition specific_search_at :: "string \<Rightarrow> string option" where
  "specific_search_at s =
     (case numbered_tag_at s of None \<Rightarrow> None | Some r \<Rightarrow> search_for_at r)"

text \<open>
  The group \<^verbatim>\<open>task\<close> of \<^verbatim>\<open>general_task_pattern\<close> for an attempt at the start of a text:
  \<^verbatim>\<open>.*\<close> runs to the next line feed.
\<close>

definition general_task_at :: "string \<Rightarrow> string option" where
  "general_task_at s =
     (case numbered_tag_at s of
        None \<Rightarrow> None
      | Some r \<Rightarrow> Some (takeWhile (\<lambda>c. c \<noteq> CHR 0x0A) r))"

text \<open>The value of \<^verbatim>\<open>task_description\<close> for a stripped line that contains the tag.\<close>

definition task_description_of :: "string \<Rightarrow> string" where
  "task_description_of line =
     (case re_search specific_search_at line of
        Some query \<Rightarrow> strip query
      | None \<Rightarrow>
          (case re_search general_task_at line of
             Some task \<Rightarrow>
               (let task_desc = strip task
                in case search_for_at task_desc of
                     Some query \<Rightarrow> strip query
                   | None \<Rightarrow> task_desc)
           | None \<Rightarrow> line))"

fun extract_tasks_loop :: "string list \<Rightarrow> string list \<Rightarrow> string list" where
  "extract_tasks_loop [] research_tasks = research_tasks"
| "extract_tasks_loop (l # plan_lines) research_tasks =
     (let line = strip l
      in if str_in ''[ResearchAgent]'' line
         then (let task_description = task_description_of line
               in if task_description \<noteq> []
                  then extract_tasks_loop plan_lines (research_tasks @ [task_description])
                  else extract_tasks_loop plan_lines research_tasks)
         else extract_tasks_loop plan_lines research_tasks)"

text \<open>\<^verbatim>\<open>PlannerAgent.extract_research_tasks_from_plan\<close>\<close>

definition extract_research_tasks_from_plan :: "string \<Rightarrow> string list" where
  "extract_research_tasks_from_plan plan_text =
     (if plan_text = [] \<or> startswith plan_text ''Error:'' then []
      else extract_tasks_loop (split ''\<newline>'' (strip plan_text)) [])"

section \<open>Writer agent\<close>

text \<open>
  \<^verbatim>\<open>WriterAgent._clean_json_format\<close>. The JSON branch depends on \<^verbatim>\<open>json.loads\<close>: the
  parameter \<open>json_content\<close> gives the value that the \<^verbatim>\<open>try\<close> block returns, if it returns
  one. That value is the entry of the JSON object under \<^verbatim>\<open>content\<close> or one of the other
  keys, and need not be a text. Of a value that is not a text the writer only uses how
  its reattachment code (\<^verbatim>\<open>section in clean_text\<close>, \<^verbatim>\<open>clean_text.split(section)\<close>,
  \<^verbatim>\<open>clean_text += ...\<close>) fares on it: it raises an exception with a message, as on a
  number, \<^verbatim>\<open>None\<close>, a dictionary or a list that holds one of the headings, or it raises
  nothing, as on a list that holds none of the headings, which it extends.
  The two searches use \<^verbatim>\<open>re.DOTALL\<close>, so their groups may span lines.
\<close>

datatype json_value = JsonText string | JsonNonText "string option"

text \<open>
  \<^verbatim>\<open>ChatCompletionMessage\(content=["\'](.*?)["\']\,\<close>: after the literal and a quote,
  the shortest run that is followed by a quote and a comma.
\<close>

fun until_quote_comma :: "string \<Rightarrow> string option" where
  "until_quote_comma [] = None"
| "until_quote_comma [c] = None"
| "until_quote_comma (c # d # r) =
     (if isquote c \<and> d = CHR '','' then Some []
      else map_option ((#) c) (until_quote_comma (d # r)))"

definition completion_at :: "string \<Rightarrow> string option" where
  "completion_at s =
     (if prefix ''ChatCompletionMessage(content='' s
      then (case drop (length ''ChatCompletionMessage(content='') s of
              [] \<Rightarrow> None
            | q # r \<Rightarrow> if isquote q then until_quote_comma r else None)
      else None)"

text \<open>
  \<^verbatim>\<open>```markdown\s*(.*?)\s*```\<close>: after the opening fence and the white space behind it,
  the shortest run that is followed by white space and a closing fence.
\<close>

fun until_fence :: "string \<Rightarrow> string option" where
  "until_fence [] = None"
| "until_fence (c # r) =
     (if prefix ''```'' (dropWhile isspace (c # r)) then Some []
      else map_option ((#) c) (until_fence r))"

definition markdown_block_at :: "string \<Rightarrow> string option" where
  "markdown_block_at s =
     (if prefix ''```markdown'' s
      then until_fence (dropWhile isspace (drop (length ''```markdown'') s))
      else None)"

text \<open>
  \<^verbatim>\<open>re.sub(r'^(Here is|I\'ve formatted|The following is|Here\'s).*?:\s*', '', text)\<close>
  without regard to case: an opening phrase, the rest of its line up to the first colon,
  and the white space behind the colon are removed.
\<close>

definition strip_response_prefix :: "string \<Rightarrow> string" where
  "strip_response_prefix text =
     (case List.find (\<lambda>p. match_literal p text \<noteq> None)
             [''Here is'', [CHR ''I'', CHR 0x27] @ ''ve formatted'', ''The following is'',
              ''Here'' @ [CHR 0x27] @ ''s''] of
        None \<Rightarrow> text
      | Some p \<Rightarrow>
          (let r = drop (length p) text;
               g = takeWhile (\<lambda>c. c \<noteq> CHR '':'') r
           in if length g < length r \<and> CHR 0x0A \<notin> set g
              then dropWhile isspace (drop (Suc (length g)) r)
              else text))"

definition clean_json_format :: "(string \<Rightarrow> json_value option) \<Rightarrow> string \<Rightarrow> json_value" where
  "clean_json_format json_content text =
     (case (if startswith (strip text) ''{'' \<and> endswith (strip text) ''}''
            then json_content text else None) of
        Some v \<Rightarrow> v
      | None \<Rightarrow>
          (case re_search completion_at text of
             Some g \<Rightarrow> JsonText g
           | None \<Rightarrow>
               (case re_search markdown_block_at text of
                  Some g \<Rightarrow> JsonText g
                | None \<Rightarrow> JsonText (strip_response_prefix text))))"

text \<open>
  The loop over \<^verbatim>\<open>reference_sections\<close>: the formatted text is cut at the first heading
  of the list that occurs in it, and the loop ends there.
\<close>

fun remove_reference_section :: "string list \<Rightarrow> string \<Rightarrow> string" where
  "remove_reference_section [] clean_text = clean_text"
| "remove_reference_section (section # rest) clean_text =
     (if str_in section clean_text then strip (split section clean_text ! 0)
      else remove_reference_section rest clean_text)"

definition reference_sections :: "string list" where
  "reference_sections =
     [''## References'', ''## Sources'', ''## Bibliography'', ''## Sources and Citations'']"

text \<open>
  The narrative and the citations section into which \<^verbatim>\<open>format_report_as_markdown\<close>
  divides its input at the heading \<^verbatim>\<open>## Sources and Citations\<close>.
\<close>

definition citations_heading :: string where
  "citations_heading = ''## Sources and Citations''"

definition split_citations_section :: "string \<Rightarrow> string \<times> string" where
  "split_citations_section synthesized_report_text =
     (if str_in citations_heading synthesized_report_text
      then (let report_parts = split citations_heading synthesized_report_text
            in (strip (report_parts ! 0),
                if length report_parts > 1
                then citations_heading @ report_parts ! 1 else []))
      else (synthesized_report_text, []))"

text \<open>
  The value of \<^verbatim>\<open>formatted_text\<close> in the \<^verbatim>\<open>except\<close> branch of
  \<^verbatim>\<open>format_report_as_markdown\<close>, for the query, the message of the exception and the
  narrative.
\<close>

definition fallback_report :: "string \<Rightarrow> string \<Rightarrow> string \<Rightarrow> string" where
  "fallback_report user_query e synthesized_report_text =
     ''# Report for: '' @ user_query
       @ ''\<newline>\<newline>## Error During Report Formatting\<newline>\<newline>''
       @ ''An error occurred while formatting the report: '' @ e
       @ ''\<newline>\<newline>**Raw Synthesized Text (if available):**\<newline>```\<newline>''
       @ synthesized_report_text @ ''\<newline>```''"

text \<open>
  What \<^verbatim>\<open>format_report_as_markdown\<close> returns: a text, or, when the cleaned answer is
  not a text and nothing raised, a value that is not a text.
\<close>

datatype report_value = ReportText string | ReportNonText

text \<open>
  \<^verbatim>\<open>WriterAgent.format_report_as_markdown\<close>: the returned value and the kernel calls
  made. An exception inside the \<^verbatim>\<open>try\<close> block, of the kernel or of the reattachment code
  on a value that is not a text, leads to the fallback document.
\<close>

definition format_report_as_markdown ::
  "(string \<Rightarrow> string \<Rightarrow> invoke_result) \<Rightarrow> (string \<Rightarrow> json_value option)
     \<Rightarrow> string \<Rightarrow> string \<Rightarrow> report_value \<times> call list" where
  "format_report_as_markdown invoke json_content user_query synthesized_report_text0 =
     (let synthesized_report_text1 =
            (if synthesized_report_text0 = []
             then ''Notice: No content was provided for the synthesized report. The research process may have encountered an issue or yielded no information.''
             else synthesized_report_text0);
          (synthesized_report_text, citations_section) =
            split_citations_section synthesized_report_text1;
          fallback = (\<lambda>e.
            (let formatted_text = fallback_report user_query e synthesized_report_text
             in if citations_section \<noteq> []
                then formatted_text @ ''\<newline>\<newline>'' @ citations_section
                else formatted_text))
      in ((case invoke user_query synthesized_report_text of
             Inr result \<Rightarrow>
               (let result_text = strip result
                in case clean_json_format json_content result_text of
                     JsonText clean_text \<Rightarrow>
                       ReportText
                         (if citations_section \<noteq> []
                          then remove_reference_section reference_sections clean_text
                                 @ ''\<newline>\<newline>'' @ citations_section
                          else clean_text)
                   | JsonNonText raised \<Rightarrow>
                       (if citations_section \<noteq> []
                        then (case raised of
                                Some e \<Rightarrow> ReportText (fallback e)
                              | None \<Rightarrow> ReportNonText)
                        else ReportNonText))
           | Inl e \<Rightarrow> ReportText (fallback e)),
          [FormatReportCall user_query synthesized_report_text]))"

section \<open>Search-guidance hints\<close>

text \<open>\<^verbatim>\<open>c.isdigit()\<close>: the decimal digits and the superscript digits 178, 179 and 185.\<close>

definition isdigit :: "char \<Rightarrow> bool" where
  "isdigit c = (isdecimal c \<or> of_char c \<in> {178, 179, 185 :: nat})"

text \<open>\<^verbatim>\<open>s.lstrip(chars)\<close> and \<^verbatim>\<open>s.rstrip(chars)\<close> with a set of characters.\<close>

definition lstrip_chars :: "string \<Rightarrow> string \<Rightarrow> string" where
  "lstrip_chars s chars = dropWhile (\<lambda>c. c \<in> set chars) s"

definition rstrip_chars :: "string \<Rightarrow> string \<Rightarrow> string" where
  "rstrip_chars s chars = rev (dropWhile (\<lambda>c. c \<in> set chars) (rev s))"

text \<open>
  \<^verbatim>\<open>s.split()\<close> without a separator: the maximal runs of characters that are not white
  space; \<open>w\<close> is the current run, reversed.
\<close>

fun split_whitespace :: "string \<Rightarrow> string \<Rightarrow> string list" where
  "split_whitespace [] w = (if w = [] then [] else [rev w])"
| "split_whitespace (c # cs) w =
     (if isspace c
      then (if w = [] then split_whitespace cs [] else rev w # split_whitespace cs [])
      else split_whitespace cs (c # w))"

definition filler_words :: "string list" where
  "filler_words = [''what'', ''when'', ''where'', ''which'', ''would'', ''could'', ''should'',
                   ''about'', ''interested'', ''specific'', ''there'', ''these'', ''those'']"

text \<open>The lines of the reply that start with a digit, a dash or a star, without their numbering.\<close>

definition numbered_questions :: "string \<Rightarrow> string list" where
  "numbered_questions questions_text =
     map (\<lambda>line. lstrip_chars line ''0123456789.-* '')
       (filter (\<lambda>line. line \<noteq> [] \<and> (isdigit (hd line) \<or> hd line = CHR ''-'' \<or> hd line = CHR ''*''))
          (map strip (split ''\<newline>'' questions_text)))"

text \<open>The line \<^verbatim>\<open>- Consider exploring: ...\<close> that one question adds to the insights, if any.\<close>

definition question_insight :: "string \<Rightarrow> string" where
  "question_insight q0 =
     (let q = rstrip_chars q0 ''?'';
          terms = map strip (filter (\<lambda>term. length term > 3 \<and> lower term \<notin> set filler_words)
                               (split_whitespace q []))
      in if terms \<noteq> [] then ''- Consider exploring: '' @ join '', '' terms @ ''\<newline>'' else [])"

text \<open>\<^verbatim>\<open>utils.text_utils.extract_clarification_insights\<close>\<close>

definition extract_clarification_insights :: "string \<Rightarrow> string" where
  "extract_clarification_insights clarification_questions =
     (if clarification_questions = [] \<or> strip clarification_questions = [] then []
      else
        (let questions_text = strip (replace clarification_questions ''QUESTIONS:'' []);
             questions0 = numbered_questions questions_text;
             questions =
               (if questions0 = []
                then map (\<lambda>q. strip q @ ''?'')
                       (filter (\<lambda>q. strip q \<noteq> []) (split ''?'' questions_text))
                else questions0)
         in ''Additional research guidance based on potential clarifications:\<newline>''
              @ concat (map question_insight questions)))"

section \<open>Pipeline orchestrator\<close>

text \<open>
  What a run depends on from outside: the kernel functions of the agents, the research
  capability \<^verbatim>\<open>ResearchAgent.perform_research_task\<close> with its three arguments, the
  answers of the user, the JSON reader of the writer, and the persistence of the report,
  which returns a path or raises \<open>IOError\<close>.
\<close>

datatype research_reply = ResearchDict string "citation list" | ResearchText string

record environment =
  clarifier_questions_invoke :: "string \<Rightarrow> invoke_result"
  get_clarification_responses :: "string \<Rightarrow> string"
  plan_invoke :: "string \<Rightarrow> invoke_result"
  clarify_query_invoke :: "string \<Rightarrow> string \<Rightarrow> invoke_result"
  perform_research_task :: "string \<Rightarrow> string option \<Rightarrow> string \<Rightarrow> research_reply"
  critique_invoke :: "string \<Rightarrow> string \<Rightarrow> invoke_result"
  synthesise_invoke :: "string \<Rightarrow> string \<Rightarrow> invoke_result"
  format_invoke :: "string \<Rightarrow> string \<Rightarrow> invoke_result"
  json_content :: "string \<Rightarrow> json_value option"
  save_report_to_file :: "string \<Rightarrow> string \<Rightarrow> string + string"

datatype py_error = AttributeError | IOError string

text \<open>The dictionary a run returns; \<^verbatim>\<open>error\<close> is present on the error path only.\<close>

record pipeline_result =
  pr_initial_query :: string
  pr_error :: "string option"
  pr_final_report :: string
  pr_file_paths :: string

text \<open>\<^verbatim>\<open>ClarifierAgent.generate_clarifying_questions\<close>, \<^verbatim>\<open>PlannerAgent.generate_plan\<close> and
  \<^verbatim>\<open>ClarifierAgent.clarify_query\<close>\<close>

definition generate_clarifying_questions :: "environment \<Rightarrow> string \<Rightarrow> string" where
  "generate_clarifying_questions env user_query =
     (case clarifier_questions_invoke env user_query of
        Inr result \<Rightarrow> strip result
      | Inl e \<Rightarrow> ''Error: Could not generate clarifying questions.'')"

definition generate_plan :: "environment \<Rightarrow> string \<Rightarrow> string" where
  "generate_plan env query =
     (case plan_invoke env query of
        Inr result \<Rightarrow> result
      | Inl e \<Rightarrow> ''Error: Could not generate plan.'')"

definition clarify_query :: "environment \<Rightarrow> string \<Rightarrow> string \<Rightarrow> string" where
  "clarify_query env user_query initial_plan =
     (case clarify_query_invoke env user_query initial_plan of
        Inr result \<Rightarrow> strip result
      | Inl e \<Rightarrow> ''Error: Could not process clarification.'')"

text \<open>\<^verbatim>\<open>_handle_clarification_phase\<close>: the pair \<^verbatim>\<open>(current_query, clarification_insights)\<close>.\<close>

definition handle_clarification_phase ::
  "environment \<Rightarrow> string \<Rightarrow> (string \<times> string) \<times> call list" where
  "handle_clarification_phase env initial_query =
     (let clarifying_questions = generate_clarifying_questions env initial_query
      in if startswith clarifying_questions ''Error:''
         then ((initial_query, []), [ClarifierQuestionsCall initial_query])
         else
           (let user_clarifications = get_clarification_responses env clarifying_questions;
                current_query =
                  (if strip user_clarifications \<noteq> []
                   then initial_query
                          @ ''\<newline>\<newline>Additional clarifications provided by user:\<newline>''
                          @ user_clarifications
                   else initial_query)
            in ((current_query, []), [ClarifierQuestionsCall initial_query])))"

text \<open>
  \<^verbatim>\<open>_handle_planning_phase\<close> returns a text on every branch but one, where it returns
  the tuple \<^verbatim>\<open>(initial_plan_str, new_insights)\<close>.
\<close>

datatype plan_value = PlanStr string | PlanTuple string string

definition handle_planning_phase ::
  "environment \<Rightarrow> string \<Rightarrow> string \<Rightarrow> plan_value \<times> call list" where
  "handle_planning_phase env current_query clarification_insights =
     (let initial_plan_str = generate_plan env current_query
      in if startswith initial_plan_str ''Error:''
         then (PlanStr initial_plan_str, [PlanCall current_query])
         else
           (let clarification_output = clarify_query env current_query initial_plan_str
            in ((if str_in ''CLARIFICATION_NOT_NEEDED'' clarification_output
                 then PlanStr initial_plan_str
                 else if startswith clarification_output ''QUESTIONS:''
                 then (let new_insights = extract_clarification_insights clarification_output
                       in if new_insights \<noteq> []
                          then PlanTuple initial_plan_str new_insights
                          else PlanStr initial_plan_str)
                 else if startswith clarification_output ''Error:''
                 then PlanStr initial_plan_str
                 else PlanStr initial_plan_str),
                [PlanCall current_query, ClarifyQueryCall current_query initial_plan_str])))"

text \<open>\<^verbatim>\<open>_handle_research_phase\<close>: one call of the research capability per extracted task.\<close>

fun handle_research_loop ::
  "environment \<Rightarrow> string list \<Rightarrow> string \<Rightarrow> research_output list \<Rightarrow> call list
     \<Rightarrow> research_output list \<times> call list" where
  "handle_research_loop env [] clarification_insights research_outputs calls =
     (research_outputs, calls)"
| "handle_research_loop env (task # rest) clarification_insights research_outputs calls =
     (let result = perform_research_task env task None clarification_insights;
          out = (case result of
                   ResearchDict result_text citations \<Rightarrow>
                     \<lparr>ro_task = task, ro_content = result_text, ro_citations = citations\<rparr>
                 | ResearchText text \<Rightarrow>
                     \<lparr>ro_task = task, ro_content = text, ro_citations = []\<rparr>)
      in handle_research_loop env rest clarification_insights (research_outputs @ [out])
           (calls @ [ResearchCall task None clarification_insights]))"

definition handle_research_phase ::
  "environment \<Rightarrow> string \<Rightarrow> string \<Rightarrow> string \<Rightarrow> research_output list \<times> call list" where
  "handle_research_phase env current_query current_plan clarification_insights =
     (let research_tasks = extract_research_tasks_from_plan current_plan
      in if research_tasks = [] then ([], [])
         else handle_research_loop env research_tasks clarification_insights [] [])"

text \<open>
  The end of both paths of a run: the report is saved with the two-character sequence
  backslash, n replaced by a line feed, and the result dictionary is returned.
\<close>

definition save_and_return ::
  "environment \<Rightarrow> string \<Rightarrow> string option \<Rightarrow> string \<Rightarrow> py_error + pipeline_result" where
  "save_and_return env query err report =
     (case save_report_to_file env (replace report [CHR 0x5C, CHR ''n''] ''\<newline>'') query of
        Inl e \<Rightarrow> Inl (IOError e)
      | Inr paths \<Rightarrow>
          Inr \<lparr>pr_initial_query = query, pr_error = err,
                pr_final_report = report, pr_file_paths = paths\<rparr>)"

text \<open>
  \<^verbatim>\<open>_handle_error\<close> and \<^verbatim>\<open>_handle_writing_phase\<close>. Both hand the report to
  \<^verbatim>\<open>ui.display_final_report\<close>, whose \<^verbatim>\<open>report.split()\<close> raises \<open>AttributeError\<close> on a
  value that is not a text.
\<close>

definition handle_error ::
  "environment \<Rightarrow> string \<Rightarrow> string \<Rightarrow> (py_error + pipeline_result) \<times> call list" where
  "handle_error env query error_message =
     (let (final_markdown_report, calls) =
            format_report_as_markdown (format_invoke env) (json_content env) query error_message
      in ((case final_markdown_report of
             ReportNonText \<Rightarrow> Inl AttributeError
           | ReportText report \<Rightarrow> save_and_return env query (Some error_message) report),
          calls))"

definition handle_writing_phase ::
  "environment \<Rightarrow> string \<Rightarrow> string \<Rightarrow> (py_error + string) \<times> call list" where
  "handle_writing_phase env query synthesized_report =
     (let (final_markdown_report, calls) =
            format_report_as_markdown (format_invoke env) (json_content env) query
              synthesized_report
      in ((case final_markdown_report of
             ReportNonText \<Rightarrow> Inl AttributeError
           | ReportText report \<Rightarrow> Inr report),
          calls))"

text \<open>
  \<^verbatim>\<open>execute_research_pipeline\<close>. The test \<^verbatim>\<open>current_plan.startswith("Error:")\<close> raises
  \<open>AttributeError\<close> when the planning phase returned a tuple. The result comes with the
  capability calls of the run.
\<close>

text \<open>The two values of \<^verbatim>\<open>error_msg\<close> in \<^verbatim>\<open>execute_research_pipeline\<close>.\<close>

definition no_tasks_error_msg :: string where
  "no_tasks_error_msg =
     ''No research tasks were identified/executed. Cannot proceed to critique.''"

definition no_critiques_error_msg :: string where
  "no_critiques_error_msg =
     ''No documents were successfully critiqued. Cannot proceed to synthesis.''"

definition trace :: "call list \<Rightarrow> 'a \<times> call list \<Rightarrow> 'a \<times> call list" where
  "trace calls r = (fst r, calls @ snd r)"

definition execute_research_pipeline ::
  "environment \<Rightarrow> string \<Rightarrow> (py_error + pipeline_result) \<times> call list" where
  "execute_research_pipeline env query =
     (let ((current_query, clarification_insights), calls1) =
            handle_clarification_phase env query;
          (current_plan_value, calls2) =
            handle_planning_phase env current_query clarification_insights
      in trace (calls1 @ calls2)
           (case current_plan_value of
              PlanTuple p i \<Rightarrow> (Inl AttributeError, [])
            | PlanStr current_plan \<Rightarrow>
                if startswith current_plan ''Error:''
                then handle_error env query current_plan
                else
                 (let (research_outputs, calls3) =
                        handle_research_phase env current_query current_plan clarification_insights
                  in trace calls3
                      (if research_outputs = []
                       then handle_error env query no_tasks_error_msg
                       else
                        (let (critiqued_documents, calls4) =
                               handle_critique_phase (critique_invoke env) research_outputs
                         in trace calls4
                             (if critiqued_documents = []
                              then handle_error env query no_critiques_error_msg
                              else
                               (let (synthesized_report, calls5) =
                                      handle_synthesis_phase (synthesise_invoke env)
                                        current_query critiqued_documents
                                in trace calls5
                                    (if startswith synthesized_report ''Error:''
                                     then handle_error env query synthesized_report
                                     else
                                      (let (final_report, calls6) =
                                             handle_writing_phase env query synthesized_report
                                       in ((case final_report of
                                              Inl e \<Rightarrow> Inl e
                                            | Inr report \<Rightarrow>
                                                save_and_return env query None report),
                                           calls6))))))))))"

section \<open>A sample run\<close>

text \<open>
  An environment for the query \<^verbatim>\<open>capital of France\<close>: the plan has one research task,
  the research capability answers without citations, and every kernel call succeeds.
\<close>

definition example_environment :: environment where
  "example_environment =
     \<lparr>clarifier_questions_invoke = (\<lambda>q. Inr ''Which country?''),
      get_clarification_responses = (\<lambda>q. []),
      plan_invoke = (\<lambda>q. Inr ''1. [ResearchAgent] capital of France''),
      clarify_query_invoke = (\<lambda>q p. Inr ''CLARIFICATION_NOT_NEEDED''),
      perform_research_task = (\<lambda>t s g. ResearchDict ''Paris is the capital.'' []),
      critique_invoke = (\<lambda>t d. Inr ''Relevance to Task: High''),
      synthesise_invoke = (\<lambda>q f. Inr ''Paris is the capital of France.''),
      format_invoke = (\<lambda>q b. Inr (''# Report'' @ b)),
      json_content = (\<lambda>t. None),
      save_report_to_file = (\<lambda>r q. Inr ''reports/capital_of_france.md'')\<rparr>"

section \<open>Citation lists as shared objects\<close>

text \<open>
  In the source a citation list is a mutable object: the dictionary of a research output
  and the dictionary of the critiqued document made from it hold the same list. To state
  which lists a phase changes, the lists live in a store, a reference is an index into
  it, and the dictionaries hold references. A new list is allocated at the end of the
  store; \<^verbatim>\<open>xs.extend(ys)\<close> replaces the list at the reference of \<open>xs\<close>.
\<close>

type_synonym ref = nat

type_synonym store = "citation list list"

record research_output_ref =
  ror_task :: string
  ror_content :: string
  ror_citations :: ref

record critiqued_document_ref =
  cdr_task :: string
  cdr_original :: string
  cdr_critique :: string
  cdr_citations :: ref

definition alloc :: "citation list \<Rightarrow> store \<Rightarrow> ref \<times> store" where
  "alloc v s = (length s, s @ [v])"

definition extend :: "ref \<Rightarrow> citation list \<Rightarrow> store \<Rightarrow> store" where
  "extend a ys s = s[a := s ! a @ ys]"

text \<open>The dictionaries with the lists they refer to in a store.\<close>

definition deref_output :: "store \<Rightarrow> research_output_ref \<Rightarrow> research_output" where
  "deref_output s r =
     \<lparr>ro_task = ror_task r, ro_content = ror_content r, ro_citations = s ! ror_citations r\<rparr>"

definition deref_document :: "store \<Rightarrow> critiqued_document_ref \<Rightarrow> critiqued_document" where
  "deref_document s d =
     \<lparr>cd_task = cdr_task d, cd_original = cdr_original d, cd_critique = cdr_critique d,
      cd_citations = s ! cdr_citations d\<rparr>"

text \<open>
  The loop of \<^verbatim>\<open>_handle_critique_phase\<close> on references: \<^verbatim>\<open>doc_citations\<close> is the list
  object of the research output, and the new dictionary holds it. The loop writes to no
  list.
\<close>

fun handle_critique_loop_ref ::
  "(string \<Rightarrow> string \<Rightarrow> invoke_result) \<Rightarrow> research_output_ref list
     \<Rightarrow> critiqued_document_ref list \<Rightarrow> critiqued_document_ref list" where
  "handle_critique_loop_ref invoke [] critiqued_documents = critiqued_documents"
| "handle_critique_loop_ref invoke (res_output # rest) critiqued_documents =
     (let task_desc = ror_task res_output;
          doc_text = ror_content res_output;
          doc_citations = ror_citations res_output;
          critique = fst (critique_document invoke task_desc doc_text)
      in handle_critique_loop_ref invoke rest
           (critiqued_documents @
              [\<lparr>cdr_task = task_desc, cdr_original = doc_text,
                cdr_critique = critique, cdr_citations = doc_citations\<rparr>]))"

definition handle_critique_phase_ref ::
  "(string \<Rightarrow> string \<Rightarrow> invoke_result) \<Rightarrow> research_output_ref list
     \<Rightarrow> critiqued_document_ref list" where
  "handle_critique_phase_ref invoke research_outputs =
     handle_critique_loop_ref invoke research_outputs []"

text \<open>
  The first loop of \<^verbatim>\<open>_handle_synthesis_phase\<close> on references: \<^verbatim>\<open>all_citations\<close> is a
  new list, and each pass extends it by the list of one document. It is the only write
  of the phase to a citation list: the merge builds a new dictionary with new entries
  and \<^verbatim>\<open>sorted\<close> returns a new list.
\<close>

fun collect_citations_loop :: "critiqued_document_ref list \<Rightarrow> ref \<Rightarrow> store \<Rightarrow> store" where
  "collect_citations_loop [] all_citations s = s"
| "collect_citations_loop (doc # rest) all_citations s =
     (let doc_citations = cdr_citations doc
      in collect_citations_loop rest all_citations
           (extend all_citations (s ! doc_citations) s))"

definition collect_citations :: "critiqued_document_ref list \<Rightarrow> store \<Rightarrow> ref \<times> store" where
  "collect_citations critiqued_documents s =
     (let (all_citations, s1) = alloc [] s
      in (all_citations, collect_citations_loop critiqued_documents all_citations s1))"

text \<open>
  The synthesis phase on references: the collection above, and the report that the
  phase computes from the documents and their lists.
\<close>

definition handle_synthesis_phase_ref ::
  "(string \<Rightarrow> string \<Rightarrow> invoke_result) \<Rightarrow> string \<Rightarrow> critiqued_document_ref list \<Rightarrow> store
     \<Rightarrow> (string \<times> call list) \<times> store" where
  "handle_synthesis_phase_ref invoke current_query critiqued_documents s =
     (let (all_citations, s1) = collect_citations critiqued_documents s
      in (handle_synthesis_phase invoke current_query
            (map (deref_document s1) critiqued_documents), s1))"

section \<open>Properties of the critique phase\<close>

lemma handle_critique_loop_tasks:
  "map cd_task (fst (handle_critique_loop invoke outs acc calls))
     = map cd_task acc @ map ro_task outs"
  by (induction outs arbitrary: acc calls) (simp_all add: Let_def split: prod.splits)

lemma handle_critique_loop_originals:
  "map cd_original (fst (handle_critique_loop invoke outs acc calls))
     = map cd_original acc @ map ro_content outs"
  by (induction outs arbitrary: acc calls) (simp_all add: Let_def split: prod.splits)

lemma handle_critique_loop_citations:
  "map cd_citations (fst (handle_critique_loop invoke outs acc calls))
     = map cd_citations acc @ map ro_citations outs"
  by (induction outs arbitrary: acc calls) (simp_all add: Let_def split: prod.splits)


lemma handle_critique_phase_length:
  "length (fst (handle_critique_phase invoke outs)) = length outs"
proof -
  have "length (map cd_task (fst (handle_critique_phase invoke outs))) = length (map ro_task outs)"
    unfolding handle_critique_phase_def by (simp only: handle_critique_loop_tasks) simp
  then show ?thesis by simp
qed

section \<open>Halts of the pipeline\<close>

lemma fst_trace: "fst (trace calls r) = fst r"
  by (simp add: trace_def)

lemma snd_trace: "snd (trace calls r) = calls @ snd r"
  by (simp add: trace_def)

lemma handle_error_pr_error:
  "fst (handle_error env q m) = Inr r \<Longrightarrow> pr_error r = Some m"
  by (auto simp: handle_error_def save_and_return_def
        split: prod.splits sum.splits report_value.splits)

lemma save_and_return_pr_error:
  "save_and_return env q e rep = Inr r \<Longrightarrow> pr_error r = e"
  by (auto simp: save_and_return_def split: sum.splits)

text \<open>
  The error message of a run that halts is an \<^verbatim>\<open>Error:\<close> text of the planner or the
  synthesis, or one of the two fixed messages; the second one needs a critique phase that
  returns no document for some research output.
\<close>

lemma pipeline_error_cases:
  assumes "fst (execute_research_pipeline env q) = Inr r" and "pr_error r = Some m"
  shows "startswith m ''Error:'' \<or> m = no_tasks_error_msg
     \<or> (m = no_critiques_error_msg
         \<and> (\<exists>outs. outs \<noteq> [] \<and> fst (handle_critique_phase (critique_invoke env) outs) = []))"
  using assms
  unfolding execute_research_pipeline_def Let_def
  by (auto simp: fst_trace dest!: handle_error_pr_error save_and_return_pr_error
        split: prod.splits plan_value.splits if_splits sum.splits)

lemma example_run:
  "fst (execute_research_pipeline example_environment ''capital of France'')
     = Inr \<lparr>pr_initial_query = ''capital of France'', pr_error = None,
            pr_final_report = ''# ReportParis is the capital of France.'',
            pr_file_paths = ''reports/capital_of_france.md''\<rparr>"
  by code_simp

text \<open>
  C10. The critique phase returns one critiqued document per research output, in order,
  with the task and text of that output. So it returns a non-empty list for a non-empty
  list of research outputs, and no run halts with the message
  \<^verbatim>\<open>No documents were successfully critiqued. Cannot proceed to synthesis.\<close>
\<close>

theorem critique_phase_one_per_output:
  "length (fst (handle_critique_phase invoke outs)) = length outs
   \<and> map cd_task (fst (handle_critique_phase invoke outs)) = map ro_task outs
   \<and> map cd_original (fst (handle_critique_phase invoke outs)) = map ro_content outs
   \<and> (outs \<noteq> [] \<longrightarrow> fst (handle_critique_phase invoke outs) \<noteq> [])
   \<and> (\<forall>r. fst (execute_research_pipeline env q) = Inr r
          \<longrightarrow> pr_error r \<noteq> Some no_critiques_error_msg)"
proof (intro conjI allI impI)
  show len: "length (fst (handle_critique_phase invoke outs)) = length outs"
    by (rule handle_critique_phase_length)
  show "map cd_task (fst (handle_critique_phase invoke outs)) = map ro_task outs"
    by (simp add: handle_critique_phase_def handle_critique_loop_tasks)
  show "map cd_original (fst (handle_critique_phase invoke outs)) = map ro_content outs"
    by (simp add: handle_critique_phase_def handle_critique_loop_originals)
  show "fst (handle_critique_phase invoke outs) \<noteq> []" if "outs \<noteq> []"
    using that len by (metis length_0_conv)
next
  fix r
  assume run: "fst (execute_research_pipeline env q) = Inr r"
  show "pr_error r \<noteq> Some no_critiques_error_msg"
  proof
    assume "pr_error r = Some no_critiques_error_msg"
    from pipeline_error_cases [OF run this]
    consider "startswith no_critiques_error_msg ''Error:''"
      | "no_critiques_error_msg = no_tasks_error_msg"
      | outs where "outs \<noteq> []" "fst (handle_critique_phase (critique_invoke env) outs) = []"
      by blast
    then show False
    proof cases
      case 1
      then show False by (simp add: no_critiques_error_msg_def startswith_def)
    next
      case 2
      then show False by (simp add: no_critiques_error_msg_def no_tasks_error_msg_def)
    next
      case 3
      then show False
        using handle_critique_phase_length [of "critique_invoke env" outs] by simp
    qed
  qed
qed

theorem critique_phase_one_per_output_witness:
  "[\<lparr>ro_task = ''capital of France'', ro_content = ''Paris is the capital.'', ro_citations = []\<rparr>] \<noteq> []
   \<and> fst (handle_critique_phase (\<lambda>t d. Inr ''Relevance to Task: High'')
        [\<lparr>ro_task = ''capital of France'', ro_content = ''Paris is the capital.'', ro_citations = []\<rparr>]) \<noteq> []
   \<and> fst (execute_research_pipeline example_environment ''capital of France'')
        = Inr \<lparr>pr_initial_query = ''capital of France'', pr_error = None,
            pr_final_report = ''# ReportParis is the capital of France.'',
            pr_file_paths = ''reports/capital_of_france.md''\<rparr>
   \<and> pr_error \<lparr>pr_initial_query = ''capital of France'', pr_error = None,
            pr_final_report = ''# ReportParis is the capital of France.'',
            pr_file_paths = ''reports/capital_of_france.md''\<rparr> \<noteq> Some no_critiques_error_msg"
  using critique_phase_one_per_output
    [of "\<lambda>t d. Inr ''Relevance to Task: High''"
        "[\<lparr>ro_task = ''capital of France'', ro_content = ''Paris is the capital.'', ro_citations = []\<rparr>]"
        example_environment "''capital of France''"]
    example_run
  by simp


section \<open>What the synthesis capability is handed\<close>

text \<open>
  C1. The synthesis phase stores the critique text under the key \<^verbatim>\<open>content\<close>, and the
  synthesiser reads the key \<^verbatim>\<open>critique_text\<close>. For the critiqued document of the sample
  run, the block handed to the synthesis capability holds the task description and the
  default \<^verbatim>\<open>N/A\<close>; the critique text of the document does not occur in it.
\<close>

theorem synthesis_block_omits_critique_text:
  "snd (handle_synthesis_phase (\<lambda>q f. Inr ''Paris is the capital of France.'') ''capital of France''
          [\<lparr>cd_task = ''capital of France'', cd_original = ''Paris is the capital.'',
            cd_critique = ''Relevance to Task: High'', cd_citations = []\<rparr>])
     = [SynthesiseCall ''capital of France''
          ''Critiqued Document 1:\<newline>Original Task: capital of France\<newline>Critique:\<newline>N/A\<newline>---\<newline>'']
   \<and> \<not> str_in ''Relevance to Task: High''
          ''Critiqued Document 1:\<newline>Original Task: capital of France\<newline>Critique:\<newline>N/A\<newline>---\<newline>''"
  by code_simp

text \<open>
  C2. A critiqued document whose critique is the skip placeholder of the critique agent
  does not stop the synthesis phase: the synthesis capability is called and its answer is
  returned. The same holds for \<^verbatim>\<open>synthesise_research\<close> on the two skipped documents of the
  synthesiser's own sample \<^verbatim>\<open>all_skipped_docs\<close>, which use the key \<^verbatim>\<open>critique_text\<close>:
  the piece after the last \<^verbatim>\<open>---\<close> never holds the skip status.
\<close>

theorem all_skipped_still_synthesised:
  "startswith (fst (critique_document (\<lambda>t d. Inr ''unused'') ''Task A'' [])) ''Critique Skipped for Task''
   \<and> handle_synthesis_phase (\<lambda>q f. Inr ''A summary.'') ''query''
        [\<lparr>cd_task = ''Task A'', cd_original = [],
          cd_critique = fst (critique_document (\<lambda>t d. Inr ''unused'') ''Task A'' []),
          cd_citations = []\<rparr>]
     = (''A summary.'',
        [SynthesiseCall ''query''
           ''Critiqued Document 1:\<newline>Original Task: Task A\<newline>Critique:\<newline>N/A\<newline>---\<newline>''])
   \<and> fst (synthesise_research (\<lambda>q f. Inr ''A summary.'') ''query''
        [[(''original_task'', ''Task A''),
          (''critique_text'', ''Critique Skipped for Task: Task A\<newline>Reason: Document content is empty...'')],
         [(''original_task'', ''Task B''),
          (''critique_text'', ''Critique Skipped for Task: Task B\<newline>Reason: Document content is empty...'')]])
     = ''A summary.''"
  by code_simp

section \<open>Search-guidance hints in a run\<close>

text \<open>
  C4. In the sample run with a \<^verbatim>\<open>QUESTIONS:\<close> reply of the plan-clarity capability, the
  hints are extracted, the planning phase returns them in a tuple with the plan, and the
  run ends with \<open>AttributeError\<close> at \<^verbatim>\<open>current_plan.startswith\<close> before any research call.
\<close>

theorem questions_reply_raises:
  "execute_research_pipeline
     (example_environment\<lparr>clarify_query_invoke := (\<lambda>q p. Inr ''QUESTIONS: 1. Which region matters most?'')\<rparr>)
     ''capital of France''
   = (Inl AttributeError,
      [ClarifierQuestionsCall ''capital of France'', PlanCall ''capital of France'',
       ClarifyQueryCall ''capital of France'' ''1. [ResearchAgent] capital of France''])
   \<and> extract_clarification_insights ''QUESTIONS: 1. Which region matters most?''
       = ''Additional research guidance based on potential clarifications:\<newline>- Consider exploring: region, matters, most\<newline>''"
  by code_simp


section \<open>Facts about the string operations\<close>

lemma str_in_iff: "str_in sub s \<longleftrightarrow> (\<exists>a b. s = a @ sub @ b)"
proof (induction s)
  case Nil
  then show ?case by auto
next
  case (Cons c cs)
  show ?case
  proof
    assume "str_in sub (c # cs)"
    then consider "prefix sub (c # cs)" | "str_in sub cs" by auto
    then show "\<exists>a b. c # cs = a @ sub @ b"
    proof cases
      case 1
      then obtain b where "c # cs = sub @ b" by (auto simp: prefix_def)
      then have "c # cs = [] @ sub @ b" by simp
      then show ?thesis by blast
    next
      case 2
      with Cons.IH obtain a b where "cs = a @ sub @ b" by blast
      then have "c # cs = (c # a) @ sub @ b" by simp
      then show ?thesis by blast
    qed
  next
    assume "\<exists>a b. c # cs = a @ sub @ b"
    then obtain a b where ab: "c # cs = a @ sub @ b" by blast
    show "str_in sub (c # cs)"
    proof (cases a)
      case Nil
      with ab have "prefix sub (c # cs)" by (simp add: prefix_def)
      then show ?thesis by simp
    next
      case (Cons x a')
      with ab have "cs = a' @ sub @ b" by simp
      with Cons.IH have "str_in sub cs" by blast
      then show ?thesis by simp
    qed
  qed
qed

lemma str_in_single: "str_in [c] s \<longleftrightarrow> c \<in> set s"
  by (induction s) auto

lemma split_not_Nil: "split sep s \<noteq> []"
  by (induction sep s rule: split.induct) (auto split: list.splits)

lemma join_split: "join sep (split sep s) = s"
proof (induction sep s rule: split.induct)
  case (1 sep)
  then show ?case by simp
next
  case (2 sep c cs)
  show ?case
  proof (cases "sep \<noteq> [] \<and> prefix sep (c # cs)")
    case True
    then obtain r where r: "c # cs = sep @ r" by (auto simp: prefix_def)
    then have d: "drop (length sep) (c # cs) = r" by (metis append_eq_conv_conj)
    from True 2(1) d have ih: "join sep (split sep r) = r" by simp
    obtain p ps where pps: "split sep r = p # ps" using split_not_Nil by (cases "split sep r") auto
    have "split sep (c # cs) = [] # split sep r" using True d by simp
    then show ?thesis using ih pps r by simp
  next
    case False
    obtain p ps where pps: "split sep cs = p # ps" using split_not_Nil by (cases "split sep cs") auto
    from False 2(2) have ih: "join sep (split sep cs) = cs" by simp
    have "split sep (c # cs) = (c # p) # ps" using False pps by auto
    then show ?thesis using ih pps by (cases ps) auto
  qed
qed

lemma hd_split_prefix: "prefix (hd (split sep s)) s"
proof -
  obtain p ps where pps: "split sep s = p # ps" using split_not_Nil by (cases "split sep s") auto
  have "join sep (p # ps) = s" using join_split [of sep s] pps by simp
  then have "prefix p s" by (cases ps) (auto simp: prefix_def)
  then show ?thesis using pps by simp
qed

lemma hd_split_no_sep: "sep \<noteq> [] \<Longrightarrow> \<not> str_in sep (hd (split sep s))"
proof (induction sep s rule: split.induct)
  case (1 sep)
  then show ?case by simp
next
  case (2 sep c cs)
  show ?case
  proof (cases "prefix sep (c # cs)")
    case True
    then show ?thesis using 2(3) by simp
  next
    case False
    obtain p ps where pps: "split sep cs = p # ps" using split_not_Nil by (cases "split sep cs") auto
    have ih: "\<not> str_in sep p" using 2(2) False 2(3) pps by simp
    have "prefix p cs" using hd_split_prefix [of sep cs] pps by simp
    then have "\<not> prefix sep (c # p)" using False
      by (meson Cons_prefix_Cons prefix_order.order_trans)
    then show ?thesis using False pps ih by simp
  qed
qed

lemma split_no_sep: "\<not> str_in sep s \<Longrightarrow> split sep s = [s]"
  by (induction sep s rule: split.induct) (auto split: list.splits)

lemma split_length_ge2: "sep \<noteq> [] \<Longrightarrow> str_in sep s \<Longrightarrow> 2 \<le> length (split sep s)"
proof (induction sep s rule: split.induct)
  case (1 sep)
  then show ?case by simp
next
  case (2 sep c cs)
  show ?case
  proof (cases "prefix sep (c # cs)")
    case True
    then show ?thesis using 2(3) split_not_Nil [of sep "drop (length sep) (c # cs)"]
      by (cases "split sep (drop (length sep) (c # cs))") auto
  next
    case False
    then have "str_in sep cs" using 2(4) by simp
    then have "2 \<le> length (split sep cs)" using 2(2) False 2(3) by simp
    then show ?thesis using False by (auto split: list.splits)
  qed
qed


lemma split_single_pieces: "p \<in> set (split [c] s) \<Longrightarrow> c \<notin> set p"
proof (induction "[c]" s arbitrary: p rule: split.induct)
  case 1
  then show ?case by simp
next
  case (2 d ds)
  show ?case
  proof (cases "d = c")
    case True
    then have "split [c] (d # ds) = [] # split [c] ds" by simp
    then show ?thesis using 2(1) 2(3) True by auto
  next
    case False
    obtain q qs where qs: "split [c] ds = q # qs" using split_not_Nil by (cases "split [c] ds") auto
    then have "split [c] (d # ds) = (d # q) # qs" using False by simp
    then show ?thesis using 2(2) 2(3) False qs by auto
  qed
qed

lemma split_single_append:
  "c \<notin> set a \<Longrightarrow> split [c] (a @ c # b) = a # split [c] b"
  by (induction a) auto

lemma split_single_join:
  "xs \<noteq> [] \<Longrightarrow> \<forall>p\<in>set xs. c \<notin> set p \<Longrightarrow> split [c] (join [c] xs) = xs"
proof (induction "[c]" xs rule: join.induct)
  case 1
  then show ?case by simp
next
  case (2 x)
  then show ?case using split_no_sep [of "[c]" x] by (simp add: str_in_single)
next
  case (3 x y ys)
  then show ?case using split_single_append [of c x "join [c] (y # ys)"] by simp
qed


lemma set_split_piece: "p \<in> set (split sep s) \<Longrightarrow> set p \<subseteq> set s"
proof (induction sep s arbitrary: p rule: split.induct)
  case (1 sep)
  then show ?case by simp
next
  case (2 sep c cs)
  show ?case
  proof (cases "sep \<noteq> [] \<and> prefix sep (c # cs)")
    case True
    then have "split sep (c # cs) = [] # split sep (drop (length sep) (c # cs))" by simp
    then consider "p = []" | "p \<in> set (split sep (drop (length sep) (c # cs)))"
      using 2(3) by auto
    then show ?thesis
    proof cases
      case 1
      then show ?thesis by simp
    next
      case 2
      then have "set p \<subseteq> set (drop (length sep) (c # cs))" using "2.IH"(1) True by blast
      then show ?thesis using set_drop_subset by fast
    qed
  next
    case False
    obtain q qs where qs: "split sep cs = q # qs" using split_not_Nil by (cases "split sep cs") auto
    then have "split sep (c # cs) = (c # q) # qs" using False by auto
    then consider "p = c # q" | "p \<in> set qs" using 2(3) by auto
    then show ?thesis
    proof cases
      case 1
      have "set q \<subseteq> set cs" using "2.IH"(2) [of q] False qs by auto
      then show ?thesis using 1 by auto
    next
      case 2
      then have "set p \<subseteq> set cs" using "2.IH"(2) [of p] False qs by auto
      then show ?thesis by auto
    qed
  qed
qed

lemma set_join: "set (join sep xs) \<subseteq> set sep \<union> \<Union> (set ` set xs)"
  by (induction sep xs rule: join.induct) auto

lemma prefix_before_char:
  assumes "prefix x (p @ c # t)" and "c \<notin> set x"
  shows "prefix x p"
proof -
  from assms(1) obtain us where us: "x = p @ us \<or> prefix x p" "prefix us (c # t)"
    by (auto simp: prefix_append)
  then consider "prefix x p" | z where "x = p @ z" "z \<noteq> []" "prefix z (c # t)"
    by (cases "us = []") auto
  then show ?thesis
  proof cases
    case 1
    then show ?thesis .
  next
    case 2
    then obtain z' where "z = c # z'" by (cases z) auto
    with 2 assms(2) show ?thesis by simp
  qed
qed

lemma prefix_join_head:
  assumes "prefix x (join [c] (p # ps))" and "c \<notin> set x"
  shows "prefix x p"
proof (cases ps)
  case Nil
  with assms show ?thesis by simp
next
  case (Cons q qs)
  with assms(1) have "prefix x (p @ c # join [c] (q # qs))" by simp
  then show ?thesis using assms(2) by (rule prefix_before_char)
qed

lemma str_in_at_only_char:
  assumes "str_in (c # t) (a @ c # b)" and "c \<notin> set a" and "c \<notin> set b"
  shows "prefix t b"
proof -
  from assms(1) obtain x y where "a @ c # b = x @ (c # t) @ y"
    using str_in_iff by blast
  then have "a @ c # b = x @ c # (t @ y)" by simp
  then have "b = t @ y" using assms(2,3) by (simp add: append_Cons_eq_iff)
  then show ?thesis by simp
qed

lemma str_in_set: "str_in sub s \<Longrightarrow> set sub \<subseteq> set s"
  using str_in_iff by force


section \<open>Cleaning of citation URLs\<close>

lemma clean_url_base:
  assumes "CHR ''?'' \<notin> set b"
  shows "clean_url b = b"
proof -
  have "\<not> str_in ''?utm_source='' b"
    using assms str_in_set [of "''?utm_source=''" b] by auto
  moreover have "\<not> str_in ''?'' b" using assms by (simp add: str_in_single)
  ultimately show ?thesis by (simp add: clean_url_def)
qed

lemma clean_url_query_fixed:
  assumes b: "CHR ''?'' \<notin> set b"
    and nt: "nt \<noteq> []"
    and amp: "\<forall>p\<in>set nt. CHR ''&'' \<notin> set p \<and> CHR ''?'' \<notin> set p"
    and keep: "\<forall>p\<in>set nt. \<not> startswith p ''utm_'' \<and> \<not> startswith p ''amp;utm_''"
  shows "clean_url (b @ ''?'' @ join ''&'' nt) = b @ ''?'' @ join ''&'' nt"
proof -
  let ?J = "join ''&'' nt"
  let ?r = "b @ ''?'' @ ?J"
  have J: "CHR ''?'' \<notin> set ?J"
    using set_join [of "''&''" nt] amp by auto
  obtain p ps where pps: "nt = p # ps" using nt by (cases nt) auto
  have no_source: "\<not> str_in ''?utm_source='' ?r"
  proof
    assume "str_in ''?utm_source='' ?r"
    then have "str_in (CHR ''?'' # ''utm_source='') (b @ CHR ''?'' # ?J)" by simp
    then have "prefix ''utm_source='' ?J" using b J by (rule str_in_at_only_char)
    then have "prefix ''utm_'' ?J" by (auto simp: prefix_def)
    then have "prefix ''utm_'' p" using pps prefix_join_head [of "''utm_''" "CHR ''&''" p ps] by simp
    then show False using keep pps by (simp add: startswith_def)
  qed
  have parts: "split ''?'' ?r = [b, ?J]"
  proof -
    have "split ''?'' (b @ CHR ''?'' # ?J) = b # split ''?'' ?J"
      using b by (rule split_single_append)
    moreover have "split ''?'' ?J = [?J]"
      using J by (intro split_no_sep) (simp add: str_in_single)
    ultimately show ?thesis by simp
  qed
  have params: "split ''&'' ?J = nt"
    using nt amp by (intro split_single_join) auto
  have filt: "filter (\<lambda>p. \<not> startswith p ''utm_'' \<and> \<not> startswith p ''amp;utm_'') nt = nt"
    using keep by (simp add: filter_id_conv)
  show ?thesis
    unfolding clean_url_def [of ?r]
    using no_source nt by (simp only: parts params filt Let_def nth_Cons_0 nth_Cons_Suc One_nat_def if_True if_False not_False_eq_True simp_thms split: if_splits)
qed


lemma clean_url_filter_branch:
  assumes "\<not> str_in ''?utm_source='' u"
    and "str_in ''?'' u" and "str_in ''&utm_'' u \<or> str_in ''&amp;utm_'' u"
  shows "clean_url (clean_url u) = clean_url u"
proof -
  define base_url where "base_url = split ''?'' u ! 0"
  define q where "q = split ''?'' u ! 1"
  define nt where
    "nt = filter (\<lambda>p. \<not> startswith p ''utm_'' \<and> \<not> startswith p ''amp;utm_'') (split ''&'' q)"
  have len: "2 \<le> length (split ''?'' u)"
    using assms(2) by (intro split_length_ge2) simp_all
  then have "base_url \<in> set (split ''?'' u)" and "q \<in> set (split ''?'' u)"
    unfolding base_url_def q_def by (auto intro!: nth_mem)
  then have b: "CHR ''?'' \<notin> set base_url" and qq: "CHR ''?'' \<notin> set q"
    using split_single_pieces by blast+
  have amp: "\<forall>p\<in>set nt. CHR ''&'' \<notin> set p \<and> CHR ''?'' \<notin> set p"
  proof
    fix p assume "p \<in> set nt"
    then have p: "p \<in> set (split ''&'' q)" by (simp add: nt_def)
    then have "CHR ''&'' \<notin> set p" using split_single_pieces by blast
    moreover have "set p \<subseteq> set q" using p by (rule set_split_piece)
    ultimately show "CHR ''&'' \<notin> set p \<and> CHR ''?'' \<notin> set p" using qq by auto
  qed
  have keep: "\<forall>p\<in>set nt. \<not> startswith p ''utm_'' \<and> \<not> startswith p ''amp;utm_''"
    by (simp add: nt_def)
  have val: "clean_url u = (if nt \<noteq> [] then base_url @ ''?'' @ join ''&'' nt else base_url)"
    unfolding clean_url_def [of u] using assms
    by (simp only: Let_def base_url_def q_def nt_def if_True if_False simp_thms)
  show ?thesis
  proof (cases "nt = []")
    case True
    then show ?thesis using val clean_url_base [OF b] by simp
  next
    case False
    then show ?thesis using val clean_url_query_fixed [OF b False amp keep] by simp
  qed
qed

text \<open>
  C6 (amended). Cleaning a URL twice gives the same as cleaning it once, for every URL
  in which the text before the first \<^verbatim>\<open>?utm_source=\<close> is not itself changed by the
  parameter filter: it does not contain \<^verbatim>\<open>?\<close> together with \<^verbatim>\<open>&utm_\<close> or
  \<^verbatim>\<open>&amp;utm_\<close>. Every URL without \<^verbatim>\<open>?utm_source=\<close> is of this kind.
\<close>

theorem clean_url_idempotent:
  assumes "str_in ''?utm_source='' u \<Longrightarrow>
             \<not> (str_in ''?'' (split ''?utm_source='' u ! 0)
                \<and> (str_in ''&utm_'' (split ''?utm_source='' u ! 0)
                   \<or> str_in ''&amp;utm_'' (split ''?utm_source='' u ! 0)))"
  shows "clean_url (clean_url u) = clean_url u"
proof (cases "str_in ''?utm_source='' u")
  case True
  define pre where "pre = split ''?utm_source='' u ! 0"
  have pre_hd: "pre = hd (split ''?utm_source='' u)"
    unfolding pre_def using split_not_Nil [of "''?utm_source=''" u] by (simp add: hd_conv_nth)
  have no_source: "\<not> str_in ''?utm_source='' pre"
    unfolding pre_hd by (rule hd_split_no_sep) simp
  have val: "clean_url u = pre"
    unfolding clean_url_def [of u] pre_def using True by (simp only: if_True)
  have "\<not> (str_in ''?'' pre \<and> (str_in ''&utm_'' pre \<or> str_in ''&amp;utm_'' pre))"
    unfolding pre_def by (rule assms [OF True])
  then have "clean_url pre = pre"
    unfolding clean_url_def [of pre] using no_source by (simp only: if_False simp_thms)
  then show ?thesis using val by simp
next
  case False
  show ?thesis
  proof (cases "str_in ''?'' u \<and> (str_in ''&utm_'' u \<or> str_in ''&amp;utm_'' u)")
    case True
    then show ?thesis using False clean_url_filter_branch by blast
  next
    case False2: False
    have "clean_url u = u"
      unfolding clean_url_def [of u] using False False2 by (simp only: if_False simp_thms)
    then show ?thesis by simp
  qed
qed

theorem clean_url_idempotent_witness:
  "str_in ''?utm_source='' ''http://a.com/p?utm_source=foo''
   \<and> \<not> str_in ''?'' (split ''?utm_source='' ''http://a.com/p?utm_source=foo'' ! 0)
   \<and> clean_url ''http://a.com/p?utm_source=foo'' = ''http://a.com/p''
   \<and> clean_url (clean_url ''http://a.com/p?utm_source=foo'')
       = clean_url ''http://a.com/p?utm_source=foo''"
proof -
  have s: "str_in ''?utm_source='' ''http://a.com/p?utm_source=foo''" by code_simp
  have h: "\<not> str_in ''?'' (split ''?utm_source='' ''http://a.com/p?utm_source=foo'' ! 0)"
    by code_simp
  have v: "clean_url ''http://a.com/p?utm_source=foo'' = ''http://a.com/p''"
    by code_simp
  show ?thesis using s h v clean_url_idempotent [of "''http://a.com/p?utm_source=foo''"]
    by blast
qed

text \<open>
  The claim C6 as stated fails: the text before \<^verbatim>\<open>?utm_source=\<close> may still hold a
  tracking parameter behind another \<^verbatim>\<open>?\<close>, which only a second cleaning removes.
\<close>

theorem clean_url_not_idempotent_counterexample:
  "clean_url ''http://a.com/p?x=1&utm_medium=b?utm_source=c'' = ''http://a.com/p?x=1&utm_medium=b''
   \<and> clean_url (clean_url ''http://a.com/p?x=1&utm_medium=b?utm_source=c'') = ''http://a.com/p?x=1''
   \<and> clean_url (clean_url ''http://a.com/p?x=1&utm_medium=b?utm_source=c'')
       \<noteq> clean_url ''http://a.com/p?x=1&utm_medium=b?utm_source=c''"
  by code_simp


section \<open>Merge of citations\<close>













section \<open>Citations section of the synthesized report\<close>

text \<open>
  C3 (amended). When the synthesis result is not an \<^verbatim>\<open>Error:\<close> text and the merged
  citation list is empty, the report is the synthesis result followed by the citations
  heading and the notice if some citation was collected from the critiqued documents, and
  the synthesis result alone if none was collected.
\<close>

theorem no_citations_notice:
  assumes "fst (synthesise_research invoke q (docs_for_synthesis_of docs)) = body"
    and "\<not> startswith body ''Error:''"
    and "docs \<noteq> []"
    and "sorted_citations (all_citations_of docs) = []"
  shows "fst (handle_synthesis_phase invoke q docs) =
           (if all_citations_of docs = [] then body
            else body @ ''\<newline>\<newline>## Sources and Citations\<newline>\<newline>''
                   @ ''*No citations were found for this report.*\<newline>'')"
proof -
  have "docs_for_synthesis_of docs \<noteq> []"
    using assms(3) by (simp add: docs_for_synthesis_of_def)
  moreover obtain calls where
    "synthesise_research invoke q (docs_for_synthesis_of docs) = (body, calls)"
    using assms(1) by (cases "synthesise_research invoke q (docs_for_synthesis_of docs)") auto
  ultimately show ?thesis
    using assms(2,4)
    by (simp add: handle_synthesis_phase_def citations_appendix_def Let_def)
qed

theorem no_citations_notice_witness:
  "fst (synthesise_research (\<lambda>q f. Inr ''Paris.'') ''capital of France''
          (docs_for_synthesis_of
             [\<lparr>cd_task = ''capital of France'', cd_original = ''Paris is the capital.'',
               cd_critique = ''Relevance to Task: High'',
               cd_citations = [\<lparr>title = ''Untitled'', url = []\<rparr>]\<rparr>])) = ''Paris.''
   \<and> \<not> startswith ''Paris.'' ''Error:''
   \<and> sorted_citations (all_citations_of
             [\<lparr>cd_task = ''capital of France'', cd_original = ''Paris is the capital.'',
               cd_critique = ''Relevance to Task: High'',
               cd_citations = [\<lparr>title = ''Untitled'', url = []\<rparr>]\<rparr>]) = []
   \<and> fst (handle_synthesis_phase (\<lambda>q f. Inr ''Paris.'') ''capital of France''
             [\<lparr>cd_task = ''capital of France'', cd_original = ''Paris is the capital.'',
               cd_critique = ''Relevance to Task: High'',
               cd_citations = [\<lparr>title = ''Untitled'', url = []\<rparr>]\<rparr>])
       = ''Paris.\<newline>\<newline>## Sources and Citations\<newline>\<newline>*No citations were found for this report.*\<newline>''"
proof -
  let ?docs = "[\<lparr>cd_task = ''capital of France'', cd_original = ''Paris is the capital.'',
               cd_critique = ''Relevance to Task: High'',
               cd_citations = [\<lparr>title = ''Untitled'', url = []\<rparr>]\<rparr>]"
  have h1: "fst (synthesise_research (\<lambda>q f. Inr ''Paris.'') ''capital of France''
              (docs_for_synthesis_of ?docs)) = ''Paris.''" by code_simp
  have h2: "\<not> startswith ''Paris.'' ''Error:''" by code_simp
  have h3: "?docs \<noteq> []" by simp
  have h4: "sorted_citations (all_citations_of ?docs) = []" by code_simp
  have h5: "all_citations_of ?docs \<noteq> []" by code_simp
  show ?thesis
    using no_citations_notice [OF h1 h2 h3 h4] h1 h2 h4 h5 by simp
qed

text \<open>
  The claim C3 as stated fails: without any collected citation the merged list is empty
  and the report gets no citations section.
\<close>

theorem no_citations_no_section_counterexample:
  "\<not> startswith
        (fst (synthesise_research (\<lambda>q f. Inr ''Paris is the capital of France.'') ''capital of France''
          (docs_for_synthesis_of
             [\<lparr>cd_task = ''capital of France'', cd_original = ''Paris is the capital.'',
               cd_critique = ''Relevance to Task: High'', cd_citations = []\<rparr>]))) ''Error:''
   \<and> sorted_citations (all_citations_of
             [\<lparr>cd_task = ''capital of France'', cd_original = ''Paris is the capital.'',
               cd_critique = ''Relevance to Task: High'', cd_citations = []\<rparr>]) = []
   \<and> fst (handle_synthesis_phase (\<lambda>q f. Inr ''Paris is the capital of France.'') ''capital of France''
             [\<lparr>cd_task = ''capital of France'', cd_original = ''Paris is the capital.'',
               cd_critique = ''Relevance to Task: High'', cd_citations = []\<rparr>])
       = ''Paris is the capital of France.''
   \<and> \<not> str_in ''## Sources and Citations'' ''Paris is the capital of France.''"
  by code_simp


section \<open>Stripping white space\<close>

lemma rstrip_all_space: "\<forall>c\<in>set r. isspace c \<Longrightarrow> rstrip r = []"
  by (simp add: rstrip_def)

lemma rstrip_append_keep:
  assumes "x \<noteq> []" and "\<not> isspace (last x)"
  shows "rstrip (x @ r) = x @ rstrip r"
proof (cases "\<forall>c\<in>set r. isspace c")
  case True
  have "dropWhile isspace (rev r @ rev x) = dropWhile isspace (rev x)"
    using True by (intro dropWhile_append2) simp
  moreover have "dropWhile isspace (rev x) = rev x"
    using assms by (cases "rev x") (auto simp: hd_rev [symmetric] dest: arg_cong [where f = hd])
  ultimately show ?thesis using True by (simp add: rstrip_def)
next
  case False
  then obtain c where "c \<in> set (rev r)" "\<not> isspace c" by auto
  then have "dropWhile isspace (rev r @ rev x) = dropWhile isspace (rev r) @ rev x"
    by (rule dropWhile_append1)
  then show ?thesis by (simp add: rstrip_def)
qed

lemma rstrip_Cons_keep: "\<not> isspace h \<Longrightarrow> rstrip (h # d) = h # rstrip d"
  using rstrip_append_keep [of "[h]" d] by simp

lemma lstrip_rstrip: "lstrip (rstrip r) = strip r"
proof (cases "dropWhile isspace r")
  case Nil
  then have "\<forall>c\<in>set r. isspace c" by (simp add: dropWhile_eq_Nil_conv)
  then have "rstrip r = []" by (rule rstrip_all_space)
  moreover have "strip r = []" unfolding strip_def lstrip_def Nil by (simp add: rstrip_def)
  ultimately show ?thesis by (simp add: lstrip_def)
next
  case (Cons h d)
  then have h: "\<not> isspace h" using hd_dropWhile [of isspace r] by fastforce
  have r: "r = takeWhile isspace r @ h # d" using Cons by (metis takeWhile_dropWhile_id)
  have "rstrip r = takeWhile isspace r @ rstrip (h # d)"
  proof -
    have "dropWhile isspace (rev (h # d) @ rev (takeWhile isspace r))
            = dropWhile isspace (rev (h # d)) @ rev (takeWhile isspace r)"
      using h by (intro dropWhile_append1 [of h]) auto
    then have "rstrip (takeWhile isspace r @ h # d) = takeWhile isspace r @ rstrip (h # d)"
      by (simp add: rstrip_def)
    then show ?thesis using r by simp
  qed
  then have "lstrip (rstrip r) = dropWhile isspace (takeWhile isspace r @ h # rstrip d)"
    using h by (simp add: lstrip_def rstrip_Cons_keep)
  also have "\<dots> = h # rstrip d"
    using h by (simp add: dropWhile_append3) (metis dropWhile_eq_Nil_conv set_takeWhileD)
  finally show ?thesis using Cons h by (simp add: strip_def lstrip_def rstrip_Cons_keep)
qed

lemma strip_lstrip: "strip (lstrip r) = strip r"
  by (simp add: strip_def lstrip_def dropWhile_idem)

lemma lstrip_keep: "\<not> isspace h \<Longrightarrow> lstrip (h # r) = h # r"
  by (simp add: lstrip_def)

lemma strip_keep:
  assumes "\<not> isspace h" and "x \<noteq> []" and "\<not> isspace (last x)"
  shows "strip (h # x @ r) = h # x @ rstrip r"
proof -
  have "rstrip ((h # x) @ r) = (h # x) @ rstrip r"
    using assms by (intro rstrip_append_keep) auto
  then show ?thesis using assms(1) by (simp add: strip_def lstrip_keep)
qed

lemma set_rstrip: "set (rstrip r) \<subseteq> set r"
  unfolding rstrip_def using set_dropWhileD by fastforce

lemma set_lstrip: "set (lstrip r) \<subseteq> set r"
  unfolding lstrip_def using set_dropWhileD by fastforce


section \<open>Task of a numbered plan line\<close>

lemma not_isspace_dot: "\<not> isspace CHR ''.''" by (simp add: isspace_def)
lemma not_isdecimal_dot: "\<not> isdecimal CHR ''.''" by (simp add: isdecimal_def)
lemma not_isspace_bracket: "\<not> isspace CHR ''[''" by (simp add: isspace_def)
lemma not_isspace_close: "\<not> isspace CHR '']''" by (simp add: isspace_def)
lemma isdecimal_not_isspace: "isdecimal c \<Longrightarrow> \<not> isspace c"
  by (auto simp: isdecimal_def isspace_def)

lemma re_search_hit: "attempt s = Some g \<Longrightarrow> re_search attempt s = Some g"
  by (cases s) auto

lemma re_search_None: "re_search attempt s = None \<Longrightarrow> attempt s = None"
  by (cases s) (auto split: option.splits)

lemma match_literal_self: "match_literal lit (lit @ r) = Some r"
  by (simp add: match_literal_def)

lemma numbered_line_first_char:
  assumes "\<forall>c\<in>set num. isdecimal c"
  obtains h x where "num @ ''.'' @ ws @ ''[ResearchAgent]'' = h # x" "\<not> isspace h"
    "x \<noteq> []" "\<not> isspace (last x)"
proof (cases num)
  case Nil
  show ?thesis
    by (rule that [of "CHR ''.''" "ws @ ''[ResearchAgent]''"])
       (simp_all add: Nil not_isspace_dot not_isspace_close)
next
  case (Cons d ds)
  show ?thesis
    by (rule that [of d "ds @ ''.'' @ ws @ ''[ResearchAgent]''"])
       (use assms Cons in \<open>simp_all add: isdecimal_not_isspace not_isspace_close\<close>)
qed

lemma numbered_tag_at_shape:
  assumes "\<forall>c\<in>set num. isdecimal c" and "\<forall>c\<in>set ws. isspace c"
  shows "numbered_tag_at (num @ ''.'' @ ws @ ''[ResearchAgent]'' @ r) = Some (dropWhile isspace r)"
proof -
  let ?tail = "ws @ ''[ResearchAgent]'' @ r"
  have 1: "dropWhile isspace (num @ ''.'' @ ?tail) = num @ ''.'' @ ?tail"
    using assms(1) by (cases num) (simp_all add: not_isspace_dot isdecimal_not_isspace)
  have 2: "dropWhile isdecimal (num @ ''.'' @ ?tail) = CHR ''.'' # ?tail"
    using assms(1) by (simp add: dropWhile_append2 not_isdecimal_dot)
  have 3: "dropWhile isspace ?tail = ''[ResearchAgent]'' @ r"
    using assms(2) by (simp add: dropWhile_append2 not_isspace_bracket)
  show ?thesis
    unfolding numbered_tag_at_def 1 2
    by (simp only: list.case 3 match_literal_self option.case refl if_True)
qed


lemma rstrip_idem: "rstrip (rstrip r) = rstrip r"
  by (simp add: rstrip_def)

lemma strip_idem: "strip (strip r) = strip r"
proof -
  have "strip (strip r) = rstrip (lstrip (rstrip (lstrip r)))" by (simp add: strip_def)
  also have "\<dots> = rstrip (strip (lstrip r))" by (simp only: lstrip_rstrip)
  also have "\<dots> = rstrip (strip r)" by (simp only: strip_lstrip)
  also have "\<dots> = strip r" by (simp only: strip_def rstrip_idem)
  finally show ?thesis .
qed

lemma general_task_at_shape:
  assumes "\<forall>c\<in>set num. isdecimal c" and "\<forall>c\<in>set ws. isspace c"
    and "CHR 0x0A \<notin> set r"
  shows "general_task_at (num @ ''.'' @ ws @ ''[ResearchAgent]'' @ r) = Some (lstrip r)"
proof -
  have "CHR 0x0A \<notin> set (lstrip r)" using assms(3) set_lstrip by blast
  then have "takeWhile (\<lambda>c. c \<noteq> CHR 0x0A) (lstrip r) = lstrip r"
    by (intro takeWhile_eq_all_conv [THEN iffD2]) auto
  then show ?thesis
    unfolding general_task_at_def numbered_tag_at_shape [OF assms(1,2)]
    by (simp add: lstrip_def)
qed

lemma specific_search_at_shape:
  assumes "\<forall>c\<in>set num. isdecimal c" and "\<forall>c\<in>set ws. isspace c"
  shows "specific_search_at (num @ ''.'' @ ws @ ''[ResearchAgent]'' @ r) = search_for_at (lstrip r)"
  unfolding specific_search_at_def numbered_tag_at_shape [OF assms] by (simp add: lstrip_def)

text \<open>
  C8 (amended). A plan line of the form digits, dot, white space, tag, remainder, in
  which the quoted \<^verbatim>\<open>Search for:\<close> pattern does not match, adds to the tasks the remainder
  without its surrounding white space, and adds nothing when that is empty.
\<close>

theorem numbered_line_task_is_remainder:
  assumes digits: "\<forall>c\<in>set num. isdecimal c"
    and ws: "\<forall>c\<in>set ws. isspace c"
    and nl: "CHR 0x0A \<notin> set rest"
    and line: "line = num @ ''.'' @ ws @ ''[ResearchAgent]'' @ rest"
    and no_quoted: "re_search specific_search_at (strip line) = None"
  shows "extract_tasks_loop (line # plan_lines) research_tasks =
           extract_tasks_loop plan_lines
             (if strip rest = [] then research_tasks else research_tasks @ [strip rest])"
proof -
  define p where "p = num @ ''.'' @ ws @ ''[ResearchAgent]''"
  obtain h x where hx: "p = h # x" "\<not> isspace h" "x \<noteq> []" "\<not> isspace (last x)"
    unfolding p_def using numbered_line_first_char [OF digits] by blast
  have shape: "p @ r = num @ ''.'' @ ws @ ''[ResearchAgent]'' @ r" for r
    by (simp only: p_def append_assoc)
  have "line = h # x @ rest" using line shape [of rest] hx(1) by simp
  then have "strip line = h # x @ rstrip rest"
    using strip_keep [OF hx(2,3,4)] by simp
  then have stripped: "strip line = p @ rstrip rest"
    using hx(1) by simp
  have nl': "CHR 0x0A \<notin> set (rstrip rest)" using nl set_rstrip by blast
  have "strip line = (num @ ''.'' @ ws) @ ''[ResearchAgent]'' @ rstrip rest"
    unfolding stripped p_def by (simp only: append_assoc)
  then have tag: "str_in ''[ResearchAgent]'' (strip line)"
    unfolding str_in_iff by blast
  have "general_task_at (strip line) = Some (strip rest)"
    unfolding stripped shape general_task_at_shape [OF digits ws nl'] lstrip_rstrip ..
  then have general: "re_search general_task_at (strip line) = Some (strip rest)"
    by (rule re_search_hit)
  have "specific_search_at (strip line) = None"
    using no_quoted by (rule re_search_None)
  then have inner: "search_for_at (strip rest) = None"
    unfolding stripped shape specific_search_at_shape [OF digits ws] lstrip_rstrip .
  have "strip (strip rest) = strip rest" by (rule strip_idem)
  then have "task_description_of (strip line) = strip rest"
    unfolding task_description_of_def
    by (simp only: no_quoted general inner option.case Let_def)
  then have "extract_tasks_loop (line # plan_lines) research_tasks =
           (if strip rest \<noteq> []
            then extract_tasks_loop plan_lines (research_tasks @ [strip rest])
            else extract_tasks_loop plan_lines research_tasks)"
    unfolding extract_tasks_loop.simps Let_def using tag by (simp only: if_True)
  then show ?thesis by (cases "strip rest = []") simp_all
qed


theorem numbered_line_task_is_remainder_witness:
  "isdecimal CHR ''2'' \<and> isspace CHR '' ''
   \<and> CHR 0x0A \<notin> set '' Summarize drug discovery trends''
   \<and> re_search specific_search_at (strip ''2. [ResearchAgent] Summarize drug discovery trends'') = None
   \<and> extract_tasks_loop [''2. [ResearchAgent] Summarize drug discovery trends''] []
       = [''Summarize drug discovery trends'']"
proof -
  have d: "\<forall>c\<in>set ''2''. isdecimal c" by code_simp
  have w: "\<forall>c\<in>set '' ''. isspace c" by code_simp
  have n: "CHR 0x0A \<notin> set '' Summarize drug discovery trends''" by code_simp
  have l: "''2. [ResearchAgent] Summarize drug discovery trends''
             = ''2'' @ ''.'' @ '' '' @ ''[ResearchAgent]'' @ '' Summarize drug discovery trends''"
    by simp
  have q: "re_search specific_search_at (strip ''2. [ResearchAgent] Summarize drug discovery trends'') = None"
    by code_simp
  have s: "strip '' Summarize drug discovery trends'' = ''Summarize drug discovery trends''"
    by code_simp
  show ?thesis
    using numbered_line_task_is_remainder [OF d w n l q, of "[]" "[]"] d w n q s
    by simp
qed

text \<open>
  The claim C8 as stated fails: on a tagged line without a dot before the tag neither
  pattern matches, and the whole line, bullet and tag included, becomes the task.
\<close>

theorem unnumbered_line_taken_whole_counterexample:
  "str_in ''[ResearchAgent]'' ''- [ResearchAgent] Summarize drug discovery trends''
   \<and> re_search specific_search_at ''- [ResearchAgent] Summarize drug discovery trends'' = None
   \<and> extract_research_tasks_from_plan ''- [ResearchAgent] Summarize drug discovery trends''
       = [''- [ResearchAgent] Summarize drug discovery trends'']"
  by code_simp


section \<open>Writing phase and the citations section\<close>

lemma str_in_lstrip: "str_in s (lstrip x) \<Longrightarrow> str_in s x"
proof -
  assume "str_in s (lstrip x)"
  then obtain a b where "lstrip x = a @ s @ b" using str_in_iff by blast
  then have "x = (takeWhile isspace x @ a) @ s @ b"
    by (metis append_assoc lstrip_def takeWhile_dropWhile_id)
  then show ?thesis using str_in_iff by blast
qed

lemma str_in_rstrip: "str_in s (rstrip x) \<Longrightarrow> str_in s x"
proof -
  assume "str_in s (rstrip x)"
  then obtain a b where ab: "rstrip x = a @ s @ b" using str_in_iff by blast
  have "rev x = takeWhile isspace (rev x) @ rev (rstrip x)"
    by (simp add: rstrip_def)
  then have "x = rstrip x @ rev (takeWhile isspace (rev x))"
    by (metis rev_append rev_rev_ident)
  then have "x = a @ s @ (b @ rev (takeWhile isspace (rev x)))"
    using ab by simp
  then show ?thesis using str_in_iff by blast
qed

lemma str_in_strip: "str_in s (strip x) \<Longrightarrow> str_in s x"
  unfolding strip_def by (blast dest: str_in_rstrip str_in_lstrip)

lemma remove_reference_section_cut:
  assumes "List.find (\<lambda>s. str_in s clean_text) secs = Some sec" and "[] \<notin> set secs"
  shows "remove_reference_section secs clean_text = strip (split sec clean_text ! 0)
         \<and> \<not> str_in sec (remove_reference_section secs clean_text)"
  using assms
proof (induction secs)
  case Nil
  then show ?case by simp
next
  case (Cons hdg rest)
  show ?case
  proof (cases "str_in hdg clean_text")
    case True
    then have sec: "sec = hdg" using Cons.prems(1) by simp
    have "hdg \<noteq> []" using Cons.prems(2) by auto
    then have "\<not> str_in hdg (hd (split hdg clean_text))" by (rule hd_split_no_sep)
    then have "\<not> str_in hdg (split hdg clean_text ! 0)"
      using split_not_Nil [of hdg clean_text] by (simp add: hd_conv_nth)
    then have "\<not> str_in hdg (strip (split hdg clean_text ! 0))"
      using str_in_strip by blast
    then show ?thesis using True sec by simp
  next
    case False
    then have "List.find (\<lambda>s. str_in s clean_text) rest = Some sec"
      using Cons.prems(1) by simp
    moreover have "[] \<notin> set rest" using Cons.prems(2) by simp
    ultimately have ih: "remove_reference_section rest clean_text = strip (split sec clean_text ! 0)
         \<and> \<not> str_in sec (remove_reference_section rest clean_text)"
      by (rule Cons.IH)
    have eq: "remove_reference_section (hdg # rest) clean_text
                = remove_reference_section rest clean_text"
      using False by simp
    show ?thesis unfolding eq by (rule ih)
  qed
qed

lemma remove_reference_section_none:
  "List.find (\<lambda>s. str_in s clean_text) secs = None \<Longrightarrow>
     remove_reference_section secs clean_text = clean_text"
  by (induction secs) (auto split: if_splits)

lemma split_two_pieces:
  assumes "length (split sep s) = 2"
  shows "s = split sep s ! 0 @ sep @ split sep s ! 1"
proof -
  obtain a b where ab: "split sep s = [a, b]"
    using assms by (cases "split sep s") (auto simp: length_Suc_conv)
  then have "join sep [a, b] = s" using join_split [of sep s] by simp
  then show ?thesis using ab by simp
qed


lemma citations_heading_not_Nil: "citations_heading \<noteq> []"
  by (simp add: citations_heading_def)

lemma split_citations_section_found:
  assumes "str_in citations_heading text"
  shows "split_citations_section text =
           (strip (split citations_heading text ! 0),
            citations_heading @ split citations_heading text ! 1)"
proof -
  have "2 \<le> length (split citations_heading text)"
    using citations_heading_not_Nil assms by (rule split_length_ge2)
  then have "1 < length (split citations_heading text)" by simp
  then show ?thesis
    unfolding split_citations_section_def Let_def using assms by (simp only: if_True)
qed

lemma remove_reference_section_find:
  assumes "[] \<notin> set secs"
  shows "remove_reference_section secs clean_text =
           (case List.find (\<lambda>s. str_in s clean_text) secs of
              None \<Rightarrow> clean_text
            | Some sec \<Rightarrow> strip (split sec clean_text ! 0))"
proof (cases "List.find (\<lambda>s. str_in s clean_text) secs")
  case None
  then show ?thesis by (simp add: remove_reference_section_none)
next
  case (Some sec)
  then show ?thesis using remove_reference_section_cut [OF Some assms] by simp
qed

lemma format_report_with_section:
  assumes "text \<noteq> []" and "split_citations_section text = (narrative, sect)" and "sect \<noteq> []"
  shows "fst (format_report_as_markdown invoke jc q text) =
           (case invoke q narrative of
              Inl e \<Rightarrow> ReportText (fallback_report q e narrative @ ''\<newline>\<newline>'' @ sect)
            | Inr result \<Rightarrow>
                (case clean_json_format jc (strip result) of
                   JsonText t \<Rightarrow>
                     ReportText (remove_reference_section reference_sections t
                                   @ ''\<newline>\<newline>'' @ sect)
                 | JsonNonText None \<Rightarrow> ReportNonText
                 | JsonNonText (Some e) \<Rightarrow>
                     ReportText (fallback_report q e narrative @ ''\<newline>\<newline>'' @ sect)))"
  using assms
  by (simp add: format_report_as_markdown_def Let_def
        split: sum.splits json_value.splits option.splits)

lemma split_two_str_in:
  assumes "length (split sep s) = 2"
  shows "str_in sep s"
proof (rule ccontr)
  assume "\<not> str_in sep s"
  then have "split sep s = [s]" by (rule split_no_sep)
  then show False using assms by simp
qed

text \<open>
  C5 (amended). For an input that contains the heading \<^verbatim>\<open>## Sources and Citations\<close>
  exactly once, the writer returns, whenever it returns a text, a body, a blank line and
  the citations section of the input, which is the input from the heading on. When the
  formatting capability answers with a text, the body is that text, cleaned, and cut at
  the first heading of the list \<^verbatim>\<open>## References\<close>, \<^verbatim>\<open>## Sources\<close>,
  \<^verbatim>\<open>## Bibliography\<close> that occurs in it, so that this heading no longer occurs in the
  body; it is the cleaned text itself when none of them occurs. When the capability
  raises, or its answer is a JSON object whose content is not a text and the reattachment
  raises on it, the body is the fallback document. No text is returned in one case only: a
  JSON content that is not a text and on which nothing raises.
\<close>

theorem citations_section_reattached:
  assumes once: "length (split citations_heading text) = 2"
  shows "text = split citations_heading text ! 0 @ citations_heading
                  @ split citations_heading text ! 1
    \<and> fst (format_report_as_markdown invoke jc q text) =
         (case invoke q (strip (split citations_heading text ! 0)) of
            Inl e \<Rightarrow>
              ReportText (fallback_report q e (strip (split citations_heading text ! 0))
                            @ ''\<newline>\<newline>''
                            @ drop (length (split citations_heading text ! 0)) text)
          | Inr result \<Rightarrow>
              (case clean_json_format jc (strip result) of
                 JsonText t \<Rightarrow>
                   ReportText ((case List.find (\<lambda>s. str_in s t) reference_sections of
                                  None \<Rightarrow> t
                                | Some sec \<Rightarrow> strip (split sec t ! 0))
                               @ ''\<newline>\<newline>''
                               @ drop (length (split citations_heading text ! 0)) text)
               | JsonNonText None \<Rightarrow> ReportNonText
               | JsonNonText (Some e) \<Rightarrow>
                   ReportText (fallback_report q e (strip (split citations_heading text ! 0))
                                 @ ''\<newline>\<newline>''
                                 @ drop (length (split citations_heading text ! 0)) text)))
    \<and> (\<forall>t sec. List.find (\<lambda>s. str_in s t) reference_sections = Some sec
          \<longrightarrow> \<not> str_in sec (strip (split sec t ! 0)))"
proof (intro conjI allI impI)
  define narrative where "narrative = strip (split citations_heading text ! 0)"
  define sect where "sect = citations_heading @ split citations_heading text ! 1"
  have occurs: "str_in citations_heading text" using once by (rule split_two_str_in)
  have found: "split_citations_section text = (narrative, sect)"
    unfolding narrative_def sect_def using occurs by (rule split_citations_section_found)
  have nonempty: "text \<noteq> []" using occurs citations_heading_not_Nil by auto
  have sect: "sect \<noteq> []" by (simp add: sect_def citations_heading_not_Nil)
  have whole: "text = split citations_heading text ! 0 @ sect"
    unfolding sect_def using once by (rule split_two_pieces)
  have from_heading: "drop (length (split citations_heading text ! 0)) text = sect"
    by (subst (2) whole) simp
  have no_empty: "[] \<notin> set reference_sections" by (simp add: reference_sections_def)
  note run = format_report_with_section [OF nonempty found sect, of invoke jc q]
  show "text = split citations_heading text ! 0 @ citations_heading
                 @ split citations_heading text ! 1"
    using whole unfolding sect_def .
  show "fst (format_report_as_markdown invoke jc q text) =
         (case invoke q (strip (split citations_heading text ! 0)) of
            Inl e \<Rightarrow>
              ReportText (fallback_report q e (strip (split citations_heading text ! 0))
                            @ ''\<newline>\<newline>''
                            @ drop (length (split citations_heading text ! 0)) text)
          | Inr result \<Rightarrow>
              (case clean_json_format jc (strip result) of
                 JsonText t \<Rightarrow>
                   ReportText ((case List.find (\<lambda>s. str_in s t) reference_sections of
                                  None \<Rightarrow> t
                                | Some sec \<Rightarrow> strip (split sec t ! 0))
                               @ ''\<newline>\<newline>''
                               @ drop (length (split citations_heading text ! 0)) text)
               | JsonNonText None \<Rightarrow> ReportNonText
               | JsonNonText (Some e) \<Rightarrow>
                   ReportText (fallback_report q e (strip (split citations_heading text ! 0))
                                 @ ''\<newline>\<newline>''
                                 @ drop (length (split citations_heading text ! 0)) text)))"
    unfolding from_heading narrative_def [symmetric]
  proof (cases "invoke q narrative")
    case (Inl e)
    then show "fst (format_report_as_markdown invoke jc q text) =
         (case invoke q narrative of
            Inl e \<Rightarrow> ReportText (fallback_report q e narrative @ ''\<newline>\<newline>'' @ sect)
          | Inr result \<Rightarrow>
              (case clean_json_format jc (strip result) of
                 JsonText t \<Rightarrow>
                   ReportText ((case List.find (\<lambda>s. str_in s t) reference_sections of
                                  None \<Rightarrow> t
                                | Some sec \<Rightarrow> strip (split sec t ! 0))
                               @ ''\<newline>\<newline>'' @ sect)
               | JsonNonText None \<Rightarrow> ReportNonText
               | JsonNonText (Some e) \<Rightarrow>
                   ReportText (fallback_report q e narrative @ ''\<newline>\<newline>'' @ sect)))"
      using run by simp
  next
    case (Inr result)
    show "fst (format_report_as_markdown invoke jc q text) =
         (case invoke q narrative of
            Inl e \<Rightarrow> ReportText (fallback_report q e narrative @ ''\<newline>\<newline>'' @ sect)
          | Inr result \<Rightarrow>
              (case clean_json_format jc (strip result) of
                 JsonText t \<Rightarrow>
                   ReportText ((case List.find (\<lambda>s. str_in s t) reference_sections of
                                  None \<Rightarrow> t
                                | Some sec \<Rightarrow> strip (split sec t ! 0))
                               @ ''\<newline>\<newline>'' @ sect)
               | JsonNonText None \<Rightarrow> ReportNonText
               | JsonNonText (Some e) \<Rightarrow>
                   ReportText (fallback_report q e narrative @ ''\<newline>\<newline>'' @ sect)))"
    proof (cases "clean_json_format jc (strip result)")
      case (JsonText t)
      then show ?thesis
        using run Inr remove_reference_section_find [OF no_empty, of t] by simp
    next
      case (JsonNonText raised)
      then show ?thesis using run Inr by (cases raised) simp_all
    qed
  qed
next
  fix t sec
  assume fnd: "List.find (\<lambda>s. str_in s t) reference_sections = Some sec"
  have no_empty: "[] \<notin> set reference_sections" by (simp add: reference_sections_def)
  have "remove_reference_section reference_sections t = strip (split sec t ! 0)"
    and "\<not> str_in sec (remove_reference_section reference_sections t)"
    using remove_reference_section_cut [OF fnd no_empty] by blast+
  then show "\<not> str_in sec (strip (split sec t ! 0))" by simp
qed

theorem citations_section_reattached_witness:
  "length (split citations_heading
      ''Body\<newline>\<newline>## Sources and Citations\<newline>\<newline>1. [A](http://a.com)\<newline>'') = 2
   \<and> List.find (\<lambda>s. str_in s ''# Report\<newline>\<newline>Body\<newline>\<newline>## References\<newline>None'')
        reference_sections = Some ''## References''
   \<and> \<not> str_in ''## References''
         (strip (split ''## References''
                   ''# Report\<newline>\<newline>Body\<newline>\<newline>## References\<newline>None'' ! 0))
   \<and> fst (format_report_as_markdown
         (\<lambda>q b. Inr ''# Report\<newline>\<newline>Body\<newline>\<newline>## References\<newline>None'')
         (\<lambda>t. None) ''q''
         ''Body\<newline>\<newline>## Sources and Citations\<newline>\<newline>1. [A](http://a.com)\<newline>'')
       = ReportText ''# Report\<newline>\<newline>Body\<newline>\<newline>## Sources and Citations\<newline>\<newline>1. [A](http://a.com)\<newline>''"
proof -
  have h1: "length (split citations_heading
      ''Body\<newline>\<newline>## Sources and Citations\<newline>\<newline>1. [A](http://a.com)\<newline>'') = 2"
    by code_simp
  have h2: "List.find (\<lambda>s. str_in s ''# Report\<newline>\<newline>Body\<newline>\<newline>## References\<newline>None'')
        reference_sections = Some ''## References''"
    by code_simp
  have v: "fst (format_report_as_markdown
         (\<lambda>q b. Inr ''# Report\<newline>\<newline>Body\<newline>\<newline>## References\<newline>None'')
         (\<lambda>t. None) ''q''
         ''Body\<newline>\<newline>## Sources and Citations\<newline>\<newline>1. [A](http://a.com)\<newline>'')
       = ReportText ''# Report\<newline>\<newline>Body\<newline>\<newline>## Sources and Citations\<newline>\<newline>1. [A](http://a.com)\<newline>''"
    by code_simp
  show ?thesis
    using citations_section_reattached [OF h1,
        of "\<lambda>q b. Inr ''# Report\<newline>\<newline>Body\<newline>\<newline>## References\<newline>None''" "\<lambda>t. None" "''q''"]
      h1 h2 v
    by blast
qed

text \<open>
  A kernel answer that is a JSON object with a number as content: the reattachment
  raises on the number and the writer returns the fallback document with the citations
  section.
\<close>

lemma non_text_content_gives_fallback:
  "fst (format_report_as_markdown (\<lambda>q b. Inr ''{\"content\": 5}'')
         (\<lambda>t. Some (JsonNonText (Some ''argument of type int is not iterable''))) ''q''
         ''Body\<newline>\<newline>## Sources and Citations\<newline>\<newline>1. [A](http://a.com)\<newline>'')
     = ReportText
         (fallback_report ''q'' ''argument of type int is not iterable'' ''Body''
            @ ''\<newline>\<newline>## Sources and Citations\<newline>\<newline>1. [A](http://a.com)\<newline>'')"
  by code_simp

text \<open>
  The claim C5 as stated fails in two ways. A heading of another kind that stands before
  the cut stays in the final document; and of an input with two headings
  \<^verbatim>\<open>## Sources and Citations\<close> only the text between them is reattached.
\<close>

theorem duplicate_heading_kept_counterexample:
  "fst (format_report_as_markdown
         (\<lambda>q b. Inr ''# Report\<newline>\<newline>## Bibliography\<newline>B\<newline>\<newline>## References\<newline>R'')
         (\<lambda>t. None) ''q''
         ''Body\<newline>\<newline>## Sources and Citations\<newline>\<newline>1. [A](http://a.com)\<newline>'')
     = ReportText (''# Report\<newline>\<newline>## Bibliography\<newline>B''
         @ ''\<newline>\<newline>## Sources and Citations\<newline>\<newline>1. [A](http://a.com)\<newline>'')
   \<and> str_in ''## Bibliography'' ''# Report\<newline>\<newline>## Bibliography\<newline>B''
   \<and> fst (format_report_as_markdown (\<lambda>q b. Inr ''# Report'') (\<lambda>t. None) ''q''
         ''Body\<newline>\<newline>## Sources and Citations\<newline>see below\<newline>\<newline>## Sources and Citations\<newline>\<newline>1. [A](http://a.com)\<newline>'')
     = ReportText ''# Report\<newline>\<newline>## Sources and Citations\<newline>see below\<newline>\<newline>''"
  by code_simp

section \<open>Frame of the citation lists\<close>

lemma handle_critique_loop_ref_citations:
  "map cdr_citations (handle_critique_loop_ref invoke outs acc)
     = map cdr_citations acc @ map ror_citations outs"
  by (induction outs arbitrary: acc) (simp_all add: Let_def)

lemma handle_critique_loop_ref_deref:
  "map (deref_document s) (handle_critique_loop_ref invoke outs acc)
     = fst (handle_critique_loop invoke (map (deref_output s) outs)
              (map (deref_document s) acc) calls)"
proof (induction outs arbitrary: acc calls)
  case Nil
  then show ?case by simp
next
  case (Cons r outs)
  obtain critique cs where c: "critique_document invoke (ror_task r) (ror_content r) = (critique, cs)"
    by (cases "critique_document invoke (ror_task r) (ror_content r)") auto
  define d where "d = \<lparr>cdr_task = ror_task r, cdr_original = ror_content r,
                        cdr_critique = critique, cdr_citations = ror_citations r\<rparr>"
  have l: "handle_critique_loop_ref invoke (r # outs) acc
             = handle_critique_loop_ref invoke outs (acc @ [d])"
    by (simp add: Let_def c d_def)
  have r: "handle_critique_loop invoke (map (deref_output s) (r # outs))
                (map (deref_document s) acc) calls
             = handle_critique_loop invoke (map (deref_output s) outs)
                 (map (deref_document s) (acc @ [d])) (calls @ cs)"
    by (simp add: Let_def c d_def deref_output_def deref_document_def)
  show ?case unfolding l r by (rule Cons.IH)
qed

lemma collect_citations_loop_frame:
  assumes "all_citations < length s" and "\<forall>d\<in>set docs. cdr_citations d \<noteq> all_citations"
  shows "length (collect_citations_loop docs all_citations s) = length s
         \<and> (\<forall>a. a \<noteq> all_citations \<longrightarrow> collect_citations_loop docs all_citations s ! a = s ! a)
         \<and> collect_citations_loop docs all_citations s ! all_citations
             = s ! all_citations @ concat (map (\<lambda>d. s ! cdr_citations d) docs)"
  using assms
proof (induction docs arbitrary: s)
  case Nil
  then show ?case by simp
next
  case (Cons doc rest)
  define s1 where "s1 = extend all_citations (s ! cdr_citations doc) s"
  have len: "length s1 = length s" by (simp add: s1_def extend_def)
  have other: "s1 ! a = s ! a" if "a \<noteq> all_citations" for a
    using that by (simp add: s1_def extend_def)
  have self: "s1 ! all_citations = s ! all_citations @ s ! cdr_citations doc"
    using Cons.prems(1) by (simp add: s1_def extend_def)
  have ih: "length (collect_citations_loop rest all_citations s1) = length s1
         \<and> (\<forall>a. a \<noteq> all_citations \<longrightarrow> collect_citations_loop rest all_citations s1 ! a = s1 ! a)
         \<and> collect_citations_loop rest all_citations s1 ! all_citations
             = s1 ! all_citations @ concat (map (\<lambda>d. s1 ! cdr_citations d) rest)"
    using Cons.prems len by (intro Cons.IH) simp_all
  have same: "map (\<lambda>d. s1 ! cdr_citations d) rest = map (\<lambda>d. s ! cdr_citations d) rest"
    using Cons.prems(2) other by simp
  have step: "collect_citations_loop (doc # rest) all_citations s
                = collect_citations_loop rest all_citations s1"
    by (simp add: s1_def Let_def)
  show ?case
    unfolding step using ih len other self same by simp
qed


lemma collect_citations_frame:
  assumes "\<forall>d\<in>set docs. cdr_citations d < length s"
  shows "fst (collect_citations docs s) = length s
         \<and> (\<forall>a<length s. snd (collect_citations docs s) ! a = s ! a)
         \<and> snd (collect_citations docs s) ! fst (collect_citations docs s)
             = concat (map (\<lambda>d. s ! cdr_citations d) docs)"
proof -
  define s1 where "s1 = s @ [[]]"
  have fresh: "\<forall>d\<in>set docs. cdr_citations d \<noteq> length s" using assms by auto
  have "length s < length s1" by (simp add: s1_def)
  from collect_citations_loop_frame [OF this fresh]
  have loop: "\<forall>a. a \<noteq> length s \<longrightarrow> collect_citations_loop docs (length s) s1 ! a = s1 ! a"
    and agg: "collect_citations_loop docs (length s) s1 ! length s
                = s1 ! length s @ concat (map (\<lambda>d. s1 ! cdr_citations d) docs)"
    by blast+
  have old: "s1 ! a = s ! a" if "a < length s" for a
    using that by (simp add: s1_def nth_append)
  have same: "map (\<lambda>d. s1 ! cdr_citations d) docs = map (\<lambda>d. s ! cdr_citations d) docs"
    using assms old by simp
  have val: "collect_citations docs s = (length s, collect_citations_loop docs (length s) s1)"
    by (simp add: collect_citations_def alloc_def s1_def)
  have empty: "s1 ! length s = []" by (simp add: s1_def)
  have agg': "collect_citations_loop docs (length s) s1 ! length s
                = concat (map (\<lambda>d. s ! cdr_citations d) docs)"
    using agg unfolding same empty by simp
  have frame: "\<forall>a<length s. collect_citations_loop docs (length s) s1 ! a = s ! a"
    using loop old by auto
  show ?thesis
    unfolding val fst_conv snd_conv using frame agg' by blast
qed


lemma all_citations_of_deref:
  "all_citations_of (map (deref_document s) docs) = concat (map (\<lambda>d. s ! cdr_citations d) docs)"
  by (simp add: all_citations_of_def deref_document_def comp_def)

text \<open>
  C9. Every critiqued document holds the citation list object of the research output it
  was made from, and so the citations of that output. The synthesis phase leaves every
  list that existed before it as it was, so the documents still carry the same citations
  after it; it collects them in a list of its own at a new reference, and the report is
  computed from the unchanged documents.
\<close>

theorem critique_citations_frame:
  assumes "\<forall>r\<in>set outs. ror_citations r < length s"
  shows "map cdr_citations (handle_critique_phase_ref invoke outs) = map ror_citations outs
    \<and> map cd_citations (fst (handle_critique_phase invoke (map (deref_output s) outs)))
        = map (\<lambda>r. s ! ror_citations r) outs
    \<and> (\<forall>a<length s.
          snd (handle_synthesis_phase_ref invoke' q (handle_critique_phase_ref invoke outs) s) ! a
            = s ! a)
    \<and> map (deref_document
              (snd (handle_synthesis_phase_ref invoke' q (handle_critique_phase_ref invoke outs) s)))
          (handle_critique_phase_ref invoke outs)
        = map (deref_document s) (handle_critique_phase_ref invoke outs)
    \<and> snd (handle_synthesis_phase_ref invoke' q (handle_critique_phase_ref invoke outs) s) ! length s
        = all_citations_of (map (deref_document s) (handle_critique_phase_ref invoke outs))
    \<and> fst (handle_synthesis_phase_ref invoke' q (handle_critique_phase_ref invoke outs) s)
        = handle_synthesis_phase invoke' q
            (map (deref_document s) (handle_critique_phase_ref invoke outs))"
proof -
  define docs where "docs = handle_critique_phase_ref invoke outs"
  define s' where "s' = snd (collect_citations docs s)"
  have refs: "map cdr_citations docs = map ror_citations outs"
    unfolding docs_def handle_critique_phase_ref_def
    by (simp add: handle_critique_loop_ref_citations)
  have wf: "\<forall>d\<in>set docs. cdr_citations d < length s"
  proof
    fix d assume "d \<in> set docs"
    then have "cdr_citations d \<in> set (map cdr_citations docs)" by simp
    then have "cdr_citations d \<in> set (map ror_citations outs)" unfolding refs .
    then show "cdr_citations d < length s" using assms by auto
  qed
  have vals: "map cd_citations (fst (handle_critique_phase invoke (map (deref_output s) outs)))
                = map (\<lambda>r. s ! ror_citations r) outs"
    unfolding handle_critique_phase_def
    by (simp add: handle_critique_loop_citations deref_output_def comp_def)
  note cf = collect_citations_frame [OF wf]
  have fresh: "fst (collect_citations docs s) = length s"
    using cf by (rule conjunct1)
  have frame: "\<forall>a<length s. s' ! a = s ! a"
    unfolding s'_def using cf by blast
  have agg: "s' ! length s = concat (map (\<lambda>d. s ! cdr_citations d) docs)"
    unfolding s'_def using cf by (metis fresh)
  have same: "map (deref_document s') docs = map (deref_document s) docs"
    using wf frame by (simp add: deref_document_def)
  have run: "handle_synthesis_phase_ref invoke' q docs s
               = (handle_synthesis_phase invoke' q (map (deref_document s') docs), s')"
    unfolding handle_synthesis_phase_ref_def s'_def by (simp add: split_beta)
  have store: "snd (handle_synthesis_phase_ref invoke' q docs s) = s'"
    unfolding run by simp
  have report: "fst (handle_synthesis_phase_ref invoke' q docs s)
                  = handle_synthesis_phase invoke' q (map (deref_document s) docs)"
    unfolding run same by simp
  have agg': "s' ! length s = all_citations_of (map (deref_document s) docs)"
    unfolding all_citations_of_deref by (rule agg)
  show ?thesis
    unfolding docs_def [symmetric] store
    using refs vals frame same agg' report by blast
qed


theorem critique_citations_frame_witness:
  "ror_citations \<lparr>ror_task = ''capital of France'', ror_content = ''Paris is the capital.'',
                   ror_citations = 0\<rparr>
     < length [[\<lparr>title = ''Paris'', url = ''http://a.com/paris''\<rparr>]]
   \<and> map cdr_citations
         (handle_critique_phase_ref (\<lambda>t d. Inr ''Relevance to Task: High'')
            [\<lparr>ror_task = ''capital of France'', ror_content = ''Paris is the capital.'',
              ror_citations = 0\<rparr>]) = [0]
   \<and> (0::nat) < length [[\<lparr>title = ''Paris'', url = ''http://a.com/paris''\<rparr>]]
   \<and> snd (handle_synthesis_phase_ref (\<lambda>q f. Inr ''Paris.'') ''capital of France''
           (handle_critique_phase_ref (\<lambda>t d. Inr ''Relevance to Task: High'')
              [\<lparr>ror_task = ''capital of France'', ror_content = ''Paris is the capital.'',
                ror_citations = 0\<rparr>])
           [[\<lparr>title = ''Paris'', url = ''http://a.com/paris''\<rparr>]])
       = [[\<lparr>title = ''Paris'', url = ''http://a.com/paris''\<rparr>],
          [\<lparr>title = ''Paris'', url = ''http://a.com/paris''\<rparr>]]"
proof -
  let ?r = "\<lparr>ror_task = ''capital of France'', ror_content = ''Paris is the capital.'',
             ror_citations = 0\<rparr>"
  let ?s = "[[\<lparr>title = ''Paris'', url = ''http://a.com/paris''\<rparr>]]"
  have h: "\<forall>r\<in>set [?r]. ror_citations r < length ?s" by simp
  have v: "snd (handle_synthesis_phase_ref (\<lambda>q f. Inr ''Paris.'') ''capital of France''
           (handle_critique_phase_ref (\<lambda>t d. Inr ''Relevance to Task: High'') [?r]) ?s)
       = [[\<lparr>title = ''Paris'', url = ''http://a.com/paris''\<rparr>],
          [\<lparr>title = ''Paris'', url = ''http://a.com/paris''\<rparr>]]"
    by code_simp
  show ?thesis
    using critique_citations_frame [OF h, of "\<lambda>t d. Inr ''Relevance to Task: High''"
        "\<lambda>q f. Inr ''Paris.''" "''capital of France''"] v
    by simp
qed

end
